theory Spec2Isabelle
  imports Main
begin

section \<open>Values, dictionaries and exceptions\<close>

text \<open>
  The task record handled by \<^verbatim>\<open>ModuleArgsParser\<close> (v2/ansible/parsing/mod_args.py) is a
  Python dictionary with string keys whose values are strings, nested dictionaries, None,
  or something else. The values that are neither of the three shapes the parser accepts
  are represented by booleans and integers; sequences are outside the modelled universe.

  A dictionary is an association list: the order of the list is the order in which
  \<^verbatim>\<open>iteritems\<close> yields the items, lookup takes the first binding of a key, and a
  store replaces the binding in place or appends a new one.
\<close>

datatype pyval =
    PNone
  | PStr string
  | PDict "(string \<times> pyval) list"
  | PBool bool
  | PInt int

type_synonym pydict = "(string \<times> pyval) list"

text \<open>
  \<^verbatim>\<open>AnsibleParserError(msg, obj=self._task_ds)\<close> carries its message and the task
  record (of type \<open>'obj\<close>: the record itself here, a reference to it in the model over a
  store below). The other constructors are the built-in exceptions that the code can raise.
\<close>

datatype 'obj pyerr =
    AnsibleParserError string 'obj
  | IndexError
  | TypeError
  | ValueError

text \<open>Truth value of an object, as tested by \<^verbatim>\<open>if x:\<close>.\<close>

fun truthy :: "pyval \<Rightarrow> bool" where
  "truthy PNone = False"
| "truthy (PStr s) = (s \<noteq> [])"
| "truthy (PDict d) = (d \<noteq> [])"
| "truthy (PBool b) = b"
| "truthy (PInt i) = (i \<noteq> 0)"

text \<open>\<^verbatim>\<open>"%s" % type(x)\<close> under Python 2.\<close>

fun type_repr :: "pyval \<Rightarrow> string" where
  "type_repr PNone = ''<type '' @ [CHR 0x27] @ ''NoneType'' @ [CHR 0x27] @ ''>''"
| "type_repr (PStr s) = ''<type '' @ [CHR 0x27] @ ''str'' @ [CHR 0x27] @ ''>''"
| "type_repr (PDict d) = ''<type '' @ [CHR 0x27] @ ''dict'' @ [CHR 0x27] @ ''>''"
| "type_repr (PBool b) = ''<type '' @ [CHR 0x27] @ ''bool'' @ [CHR 0x27] @ ''>''"
| "type_repr (PInt i) = ''<type '' @ [CHR 0x27] @ ''int'' @ [CHR 0x27] @ ''>''"

text \<open>
  \<^verbatim>\<open>k in d\<close>, \<^verbatim>\<open>d[k] = v\<close>, \<^verbatim>\<open>del d[k]\<close> and \<^verbatim>\<open>d.get(k, default)\<close>, for any type of
  values.
\<close>

definition dict_contains :: "(string \<times> 'v) list \<Rightarrow> string \<Rightarrow> bool" where
  "dict_contains d k = (map_of d k \<noteq> None)"

fun dict_setitem :: "string \<Rightarrow> 'v \<Rightarrow> (string \<times> 'v) list \<Rightarrow> (string \<times> 'v) list" where
  "dict_setitem k v [] = [(k, v)]"
| "dict_setitem k v ((k', v') # d) =
     (if k' = k then (k, v) # d else (k', v') # dict_setitem k v d)"

definition dict_delitem :: "string \<Rightarrow> (string \<times> 'v) list \<Rightarrow> (string \<times> 'v) list" where
  "dict_delitem k d = filter (\<lambda>kv. fst kv \<noteq> k) d"

definition dict_get :: "(string \<times> 'v) list \<Rightarrow> string \<Rightarrow> 'v \<Rightarrow> 'v" where
  "dict_get d k dflt = (case map_of d k of None \<Rightarrow> dflt | Some v \<Rightarrow> v)"

text \<open>
  \<^verbatim>\<open>d.update(other)\<close>. A dictionary argument stores its items one by one. A non-empty
  string is iterated character by character, and a character is not a pair: ValueError.
  None, booleans and integers are not iterable: TypeError.
\<close>

fun dict_update :: "pydict \<Rightarrow> pyval \<Rightarrow> pydict pyerr + pydict" where
  "dict_update d (PDict e) = Inr (fold (\<lambda>kv acc. dict_setitem (fst kv) (snd kv) acc) e d)"
| "dict_update d (PStr s) = (if s = [] then Inr d else Inl ValueError)"
| "dict_update d PNone = Inl TypeError"
| "dict_update d (PBool b) = Inl TypeError"
| "dict_update d (PInt i) = Inl TypeError"

section \<open>String splitting\<close>

text \<open>\<^verbatim>\<open>str.split()\<close> without arguments: maximal runs of non-whitespace characters.\<close>

definition is_space :: "char \<Rightarrow> bool" where
  "is_space c = (c \<in> set [CHR '' '', CHR 0x09, CHR 0x0A, CHR 0x0B, CHR 0x0C, CHR 0x0D])"

fun split_ws :: "string \<Rightarrow> string \<Rightarrow> string list" where
  "split_ws cur [] = (if cur = [] then [] else [cur])"
| "split_ws cur (c # cs) =
     (if is_space c then (if cur = [] then split_ws [] cs else cur # split_ws [] cs)
      else split_ws (cur @ [c]) cs)"

definition py_split :: "string \<Rightarrow> string list" where
  "py_split s = split_ws [] s"

text \<open>\<^verbatim>\<open>" ".join(xs)\<close>.\<close>

fun join_space :: "string list \<Rightarrow> string" where
  "join_space [] = []"
| "join_space [x] = x"
| "join_space (x # y # ys) = x @ '' '' @ join_space (y # ys)"

section \<open>ModuleArgsParser\<close>

text \<open>
  The two collaborators that are imported from elsewhere are parameters of the model:
  \<open>module_loader\<close> is the membership test \<^verbatim>\<open>item in module_loader\<close>, and \<open>parse_kv\<close>
  is \<^verbatim>\<open>parse_kv(text, check_raw=...)\<close>, which returns a dictionary.
\<close>

type_synonym tokenizer = "string \<Rightarrow> bool \<Rightarrow> pydict"

text \<open>\<^verbatim>\<open>_split_module_string\<close>: \<^verbatim>\<open>tokens[0]\<close> raises IndexError on an empty token list.\<close>

definition split_module_string :: "string \<Rightarrow> 'obj pyerr + (string \<times> string)" where
  "split_module_string s =
     (let tokens = py_split s in
      if length tokens > 1 then Inr (hd tokens, join_space (tl tokens))
      else (case tokens of [] \<Rightarrow> Inl IndexError | t # ts \<Rightarrow> Inr (t, [])))"

text \<open>\<^verbatim>\<open>_handle_shell_weirdness\<close>.\<close>

definition handle_shell_weirdness :: "pyval \<Rightarrow> pydict \<Rightarrow> pyval \<times> pydict" where
  "handle_shell_weirdness action args =
     (if action \<notin> set [PStr ''shell'', PStr ''command''] then (action, args)
      else if action = PStr ''shell''
        then (PStr ''command'', dict_setitem ''_uses_shell'' (PBool True) args)
        else (action, args))"

text \<open>\<^verbatim>\<open>check_raw = action in ('command', 'shell', 'script')\<close>.\<close>

definition check_raw :: "pyval \<Rightarrow> bool" where
  "check_raw action = (action \<in> set [PStr ''command'', PStr ''shell'', PStr ''script''])"

definition unexpected_type :: "pydict \<Rightarrow> pyval \<Rightarrow> pydict pyerr" where
  "unexpected_type task_ds thing =
     AnsibleParserError (''unexpected parameter type in action: '' @ type_repr thing) task_ds"

text \<open>
  \<^verbatim>\<open>_normalize_old_style_args\<close> returns a dictionary or None (here \<open>PDict\<close> or
  \<open>PNone\<close>).
\<close>

fun normalize_old_style_args :: "pydict \<Rightarrow> tokenizer \<Rightarrow> pyval \<Rightarrow> pyval \<Rightarrow> pydict pyerr + pyval" where
  "normalize_old_style_args task_ds parse_kv (PDict d) action = Inr (PDict d)"
| "normalize_old_style_args task_ds parse_kv (PStr s) action =
     Inr (PDict (parse_kv s (check_raw action)))"
| "normalize_old_style_args task_ds parse_kv PNone action = Inr PNone"
| "normalize_old_style_args task_ds parse_kv thing action = Inl (unexpected_type task_ds thing)"

text \<open>
  \<^verbatim>\<open>_normalize_new_style_args\<close> returns the pair (action, args); both stay None for a
  dictionary without a \<^verbatim>\<open>module\<close> key. The dictionary is copied before the key is
  deleted, so the deletion is a new value here.
\<close>

fun normalize_new_style_args :: "pydict \<Rightarrow> tokenizer \<Rightarrow> pyval \<Rightarrow> pydict pyerr + (pyval \<times> pyval)" where
  "normalize_new_style_args task_ds parse_kv (PDict d) =
     (case map_of d ''module'' of
        Some m \<Rightarrow> Inr (m, PDict (dict_delitem ''module'' d))
      | None \<Rightarrow> Inr (PNone, PNone))"
| "normalize_new_style_args task_ds parse_kv (PStr s) =
     (case split_module_string s of
        Inl e \<Rightarrow> Inl e
      | Inr (action, args) \<Rightarrow>
          Inr (PStr action, PDict (parse_kv args (check_raw (PStr action)))))"
| "normalize_new_style_args task_ds parse_kv thing = Inl (unexpected_type task_ds thing)"

text \<open>
  \<^verbatim>\<open>_normalize_parameters\<close>. \<open>final_args\<close> starts empty and is updated with the
  additional arguments when they are true; the normalized arguments are replaced by their
  \<^verbatim>\<open>args\<close> entry when they have one, and update \<open>final_args\<close> when they are true.
\<close>

definition normalize_parameters ::
  "pydict \<Rightarrow> tokenizer \<Rightarrow> pyval \<Rightarrow> pyval \<Rightarrow> pyval \<Rightarrow> pydict pyerr + (pyval \<times> pydict)" where
  "normalize_parameters task_ds parse_kv thing action additional_args =
     (case (if truthy additional_args then dict_update [] additional_args else Inr []) of
        Inl e \<Rightarrow> Inl e
      | Inr final_args \<Rightarrow>
          (case (if action \<noteq> PNone
                 then (case normalize_old_style_args task_ds parse_kv thing action of
                         Inl e \<Rightarrow> Inl e | Inr args \<Rightarrow> Inr (action, args))
                 else normalize_new_style_args task_ds parse_kv thing) of
             Inl e \<Rightarrow> Inl e
           | Inr (action', args) \<Rightarrow>
               (let args' = (case args of
                               PDict d \<Rightarrow> (if d \<noteq> [] \<and> dict_contains d ''args''
                                           then dict_get d ''args'' PNone else args)
                             | _ \<Rightarrow> args)
                in if truthy args'
                   then (case dict_update final_args args' of
                           Inl e \<Rightarrow> Inl e | Inr final_args' \<Rightarrow> Inr (action', final_args'))
                   else Inr (action', final_args))))"

text \<open>
  \<^verbatim>\<open>parse\<close>, in the order of the source. The state of the three local variables
  (action, args, delegate_to) is threaded through the steps.
\<close>

type_synonym pstate = "pyval \<times> pydict \<times> pyval"

text \<open>The block under \<^verbatim>\<open>if 'action' in self._task_ds\<close>.\<close>

definition parse_action :: "tokenizer \<Rightarrow> pydict \<Rightarrow> pyval \<Rightarrow> pstate \<Rightarrow> pydict pyerr + pstate" where
  "parse_action parse_kv task_ds additional_args st =
     (if dict_contains task_ds ''action'' then
        (case normalize_parameters task_ds parse_kv (dict_get task_ds ''action'' PNone)
                PNone additional_args of
           Inl e \<Rightarrow> Inl e
         | Inr (action, args) \<Rightarrow> Inr (action, args, PNone))
      else Inr st)"

text \<open>The block under \<^verbatim>\<open>if 'local_action' in self._task_ds\<close>.\<close>

definition parse_local_action :: "tokenizer \<Rightarrow> pydict \<Rightarrow> pyval \<Rightarrow> pstate \<Rightarrow> pydict pyerr + pstate" where
  "parse_local_action parse_kv task_ds additional_args st =
     (if dict_contains task_ds ''local_action'' then
        (if fst st \<noteq> PNone
         then Inl (AnsibleParserError ''action and local_action are mutually exclusive'' task_ds)
         else (case normalize_parameters task_ds parse_kv
                      (dict_get task_ds ''local_action'' (PStr [])) PNone additional_args of
                 Inl e \<Rightarrow> Inl e
               | Inr (action, args) \<Rightarrow> Inr (action, args, PStr ''localhost'')))
      else Inr st)"

text \<open>The loop \<^verbatim>\<open>for (item, value) in iteritems(self._task_ds)\<close> over the remaining items.\<close>

fun parse_modules ::
  "(string \<Rightarrow> bool) \<Rightarrow> tokenizer \<Rightarrow> pydict \<Rightarrow> pyval \<Rightarrow> pydict \<Rightarrow> pstate \<Rightarrow> pydict pyerr + pstate" where
  "parse_modules module_loader parse_kv task_ds additional_args [] st = Inr st"
| "parse_modules module_loader parse_kv task_ds additional_args ((item, val) # items) st =
     (if module_loader item \<or> item = ''meta'' then
        (if fst st \<noteq> PNone
         then Inl (AnsibleParserError ''conflicting action statements'' task_ds)
         else (case normalize_parameters task_ds parse_kv val (PStr item) additional_args of
                 Inl e \<Rightarrow> Inl e
               | Inr (action, args) \<Rightarrow>
                   parse_modules module_loader parse_kv task_ds additional_args items
                     (action, args, snd (snd st))))
      else parse_modules module_loader parse_kv task_ds additional_args items st)"

text \<open>Everything of \<^verbatim>\<open>parse\<close> before the check \<^verbatim>\<open>if action is None\<close>.\<close>

definition parse_detect :: "(string \<Rightarrow> bool) \<Rightarrow> tokenizer \<Rightarrow> pydict \<Rightarrow> pydict pyerr + pstate" where
  "parse_detect module_loader parse_kv task_ds =
     (let additional_args = dict_get task_ds ''args'' (PDict []) in
      case parse_action parse_kv task_ds additional_args (PNone, [], PNone) of
        Inl e \<Rightarrow> Inl e
      | Inr st1 \<Rightarrow>
          (case parse_local_action parse_kv task_ds additional_args st1 of
             Inl e \<Rightarrow> Inl e
           | Inr st2 \<Rightarrow>
               parse_modules module_loader parse_kv task_ds additional_args task_ds st2))"

definition parse :: "(string \<Rightarrow> bool) \<Rightarrow> tokenizer \<Rightarrow> pydict \<Rightarrow> pydict pyerr + pstate" where
  "parse module_loader parse_kv task_ds =
     (case parse_detect module_loader parse_kv task_ds of
        Inl e \<Rightarrow> Inl e
      | Inr (action, args, delegate_to) \<Rightarrow>
          (if action = PNone
           then Inl (AnsibleParserError ''no action detected in task'' task_ds)
           else (case handle_shell_weirdness action args of
                   (action', args') \<Rightarrow> Inr (action', args', delegate_to))))"

section \<open>ModuleArgsParser over a store of dictionary objects\<close>

text \<open>
  The same code over a store, for the properties that depend on which dictionary object an
  assignment changes. A dictionary is an object of the store, a value refers to it by its
  address, and two values with the same address are the same object. The store is the list
  of the objects in the order of their creation: the address of an object is its position,
  and a new object is appended.
\<close>

datatype refval =
    RNone
  | RStr string
  | RRef nat
  | RBool bool
  | RInt int

type_synonym obj = "(string \<times> refval) list"
type_synonym store = "obj list"

text \<open>
  The contents of the object at an address. References in a Python program always point to
  an object; for an address outside the store the contents are empty.
\<close>

definition deref :: "store \<Rightarrow> nat \<Rightarrow> obj" where
  "deref h a = (if a < length h then h ! a else [])"

text \<open>
  A new dictionary object with the given contents: \<^verbatim>\<open>dict()\<close>, \<^verbatim>\<open>d.copy()\<close> and the
  result of \<^verbatim>\<open>parse_kv\<close>.
\<close>

definition new_dict :: "obj \<Rightarrow> store \<Rightarrow> nat \<times> store" where
  "new_dict d h = (length h, h @ [d])"

fun store_truthy :: "store \<Rightarrow> refval \<Rightarrow> bool" where
  "store_truthy h RNone = False"
| "store_truthy h (RStr s) = (s \<noteq> [])"
| "store_truthy h (RRef a) = (deref h a \<noteq> [])"
| "store_truthy h (RBool b) = b"
| "store_truthy h (RInt i) = (i \<noteq> 0)"

fun store_type_repr :: "refval \<Rightarrow> string" where
  "store_type_repr RNone = ''<type '' @ [CHR 0x27] @ ''NoneType'' @ [CHR 0x27] @ ''>''"
| "store_type_repr (RStr s) = ''<type '' @ [CHR 0x27] @ ''str'' @ [CHR 0x27] @ ''>''"
| "store_type_repr (RRef a) = ''<type '' @ [CHR 0x27] @ ''dict'' @ [CHR 0x27] @ ''>''"
| "store_type_repr (RBool b) = ''<type '' @ [CHR 0x27] @ ''bool'' @ [CHR 0x27] @ ''>''"
| "store_type_repr (RInt i) = ''<type '' @ [CHR 0x27] @ ''int'' @ [CHR 0x27] @ ''>''"

text \<open>
  \<^verbatim>\<open>d.update(other)\<close> changes the object \<open>d\<close> (at \<open>target\<close>) in place; the exception,
  if any, is raised before anything is stored.
\<close>

fun store_dict_update :: "nat \<Rightarrow> refval \<Rightarrow> store \<Rightarrow> (nat pyerr + unit) \<times> store" where
  "store_dict_update target (RRef a) h =
     (Inr (), h[target := fold (\<lambda>kv acc. dict_setitem (fst kv) (snd kv) acc)
                             (deref h a) (deref h target)])"
| "store_dict_update target (RStr s) h = (if s = [] then Inr () else Inl ValueError, h)"
| "store_dict_update target RNone h = (Inl TypeError, h)"
| "store_dict_update target (RBool b) h = (Inl TypeError, h)"
| "store_dict_update target (RInt i) h = (Inl TypeError, h)"

text \<open>The tokenizer returns the contents of the dictionary it creates.\<close>

type_synonym store_tokenizer = "string \<Rightarrow> bool \<Rightarrow> obj"

text \<open>
  \<^verbatim>\<open>_handle_shell_weirdness\<close>: \<^verbatim>\<open>args['_uses_shell'] = True\<close> changes the object that
  \<open>args\<close> refers to.
\<close>

definition store_handle_shell_weirdness ::
  "refval \<Rightarrow> nat \<Rightarrow> store \<Rightarrow> (refval \<times> nat) \<times> store" where
  "store_handle_shell_weirdness action args h =
     (if action \<notin> set [RStr ''shell'', RStr ''command''] then ((action, args), h)
      else if action = RStr ''shell''
        then ((RStr ''command'', args),
              h[args := dict_setitem ''_uses_shell'' (RBool True) (deref h args)])
        else ((action, args), h))"

definition store_check_raw :: "refval \<Rightarrow> bool" where
  "store_check_raw action = (action \<in> set [RStr ''command'', RStr ''shell'', RStr ''script''])"

definition store_unexpected_type :: "nat \<Rightarrow> refval \<Rightarrow> nat pyerr" where
  "store_unexpected_type task_ds thing =
     AnsibleParserError (''unexpected parameter type in action: '' @ store_type_repr thing) task_ds"

text \<open>
  \<^verbatim>\<open>_normalize_old_style_args\<close>: for a dictionary, \<^verbatim>\<open>args = thing\<close> is the same object.
\<close>

fun store_normalize_old_style_args ::
  "nat \<Rightarrow> store_tokenizer \<Rightarrow> refval \<Rightarrow> refval \<Rightarrow> store \<Rightarrow> (nat pyerr + refval) \<times> store" where
  "store_normalize_old_style_args task_ds parse_kv (RRef a) action h = (Inr (RRef a), h)"
| "store_normalize_old_style_args task_ds parse_kv (RStr s) action h =
     (case new_dict (parse_kv s (store_check_raw action)) h of
        (args, h') \<Rightarrow> (Inr (RRef args), h'))"
| "store_normalize_old_style_args task_ds parse_kv RNone action h = (Inr RNone, h)"
| "store_normalize_old_style_args task_ds parse_kv thing action h =
     (Inl (store_unexpected_type task_ds thing), h)"

text \<open>
  \<^verbatim>\<open>_normalize_new_style_args\<close>: \<^verbatim>\<open>thing = thing.copy()\<close>, then
  \<^verbatim>\<open>args = thing.copy()\<close> and \<^verbatim>\<open>del args['module']\<close> on that second copy.
\<close>

fun store_normalize_new_style_args ::
  "nat \<Rightarrow> store_tokenizer \<Rightarrow> refval \<Rightarrow> store \<Rightarrow> (nat pyerr + (refval \<times> refval)) \<times> store" where
  "store_normalize_new_style_args task_ds parse_kv (RRef a) h =
     (case new_dict (deref h a) h of
        (thing, h1) \<Rightarrow>
          (case map_of (deref h1 thing) ''module'' of
             Some m \<Rightarrow>
               (case new_dict (deref h1 thing) h1 of
                  (args, h2) \<Rightarrow>
                    (Inr (m, RRef args), h2[args := dict_delitem ''module'' (deref h2 args)]))
           | None \<Rightarrow> (Inr (RNone, RNone), h1)))"
| "store_normalize_new_style_args task_ds parse_kv (RStr s) h =
     (case split_module_string s of
        Inl e \<Rightarrow> (Inl e, h)
      | Inr (action, args) \<Rightarrow>
          (case new_dict (parse_kv args (store_check_raw (RStr action))) h of
             (args', h') \<Rightarrow> (Inr (RStr action, RRef args'), h')))"
| "store_normalize_new_style_args task_ds parse_kv thing h =
     (Inl (store_unexpected_type task_ds thing), h)"

text \<open>
  \<^verbatim>\<open>_normalize_parameters\<close>: \<^verbatim>\<open>final_args = dict()\<close> is a new object, which the two
  \<^verbatim>\<open>update\<close> calls change; its address is returned.
\<close>

definition store_normalize_parameters ::
  "nat \<Rightarrow> store_tokenizer \<Rightarrow> refval \<Rightarrow> refval \<Rightarrow> refval \<Rightarrow> store
     \<Rightarrow> (nat pyerr + (refval \<times> nat)) \<times> store" where
  "store_normalize_parameters task_ds parse_kv thing action additional_args h =
     (case new_dict [] h of
        (final_args, h1) \<Rightarrow>
          (case (if store_truthy h1 additional_args
                 then store_dict_update final_args additional_args h1 else (Inr (), h1)) of
             (Inl e, h2) \<Rightarrow> (Inl e, h2)
           | (Inr u, h2) \<Rightarrow>
               (case (if action \<noteq> RNone
                      then (case store_normalize_old_style_args task_ds parse_kv thing action h2 of
                              (Inl e, h3) \<Rightarrow> (Inl e, h3)
                            | (Inr args, h3) \<Rightarrow> (Inr (action, args), h3))
                      else store_normalize_new_style_args task_ds parse_kv thing h2) of
                  (Inl e, h3) \<Rightarrow> (Inl e, h3)
                | (Inr (action', args), h3) \<Rightarrow>
                    (let args' = (case args of
                                    RRef a \<Rightarrow>
                                      (if deref h3 a \<noteq> [] \<and> dict_contains (deref h3 a) ''args''
                                       then dict_get (deref h3 a) ''args'' RNone else args)
                                  | _ \<Rightarrow> args)
                     in if store_truthy h3 args'
                        then (case store_dict_update final_args args' h3 of
                                (Inl e, h4) \<Rightarrow> (Inl e, h4)
                              | (Inr u, h4) \<Rightarrow> (Inr (action', final_args), h4))
                        else (Inr (action', final_args), h3)))))"

text \<open>
  \<^verbatim>\<open>parse\<close>. The local variable \<open>args\<close> holds the address of a dictionary. The
  default \<^verbatim>\<open>dict()\<close> of \<^verbatim>\<open>self._task_ds.get('args', dict())\<close> is created whether the
  key is present or not. The loop runs over the items that the record has when the loop
  starts.
\<close>

type_synonym store_pstate = "refval \<times> nat \<times> refval"

definition store_parse_action ::
  "store_tokenizer \<Rightarrow> nat \<Rightarrow> refval \<Rightarrow> store_pstate \<Rightarrow> store
     \<Rightarrow> (nat pyerr + store_pstate) \<times> store" where
  "store_parse_action parse_kv task_ds additional_args st h =
     (if dict_contains (deref h task_ds) ''action'' then
        (case store_normalize_parameters task_ds parse_kv
                (dict_get (deref h task_ds) ''action'' RNone) RNone additional_args h of
           (Inl e, h') \<Rightarrow> (Inl e, h')
         | (Inr (action, args), h') \<Rightarrow> (Inr (action, args, RNone), h'))
      else (Inr st, h))"

definition store_parse_local_action ::
  "store_tokenizer \<Rightarrow> nat \<Rightarrow> refval \<Rightarrow> store_pstate \<Rightarrow> store
     \<Rightarrow> (nat pyerr + store_pstate) \<times> store" where
  "store_parse_local_action parse_kv task_ds additional_args st h =
     (if dict_contains (deref h task_ds) ''local_action'' then
        (if fst st \<noteq> RNone
         then (Inl (AnsibleParserError ''action and local_action are mutually exclusive'' task_ds), h)
         else (case store_normalize_parameters task_ds parse_kv
                      (dict_get (deref h task_ds) ''local_action'' (RStr [])) RNone
                      additional_args h of
                 (Inl e, h') \<Rightarrow> (Inl e, h')
               | (Inr (action, args), h') \<Rightarrow> (Inr (action, args, RStr ''localhost''), h')))
      else (Inr st, h))"

fun store_parse_modules ::
  "(string \<Rightarrow> bool) \<Rightarrow> store_tokenizer \<Rightarrow> nat \<Rightarrow> refval \<Rightarrow> obj \<Rightarrow> store_pstate \<Rightarrow> store
     \<Rightarrow> (nat pyerr + store_pstate) \<times> store" where
  "store_parse_modules module_loader parse_kv task_ds additional_args [] st h = (Inr st, h)"
| "store_parse_modules module_loader parse_kv task_ds additional_args ((item, val) # items) st h =
     (if module_loader item \<or> item = ''meta'' then
        (if fst st \<noteq> RNone
         then (Inl (AnsibleParserError ''conflicting action statements'' task_ds), h)
         else (case store_normalize_parameters task_ds parse_kv val (RStr item)
                      additional_args h of
                 (Inl e, h') \<Rightarrow> (Inl e, h')
               | (Inr (action, args), h') \<Rightarrow>
                   store_parse_modules module_loader parse_kv task_ds additional_args items
                     (action, args, snd (snd st)) h'))
      else store_parse_modules module_loader parse_kv task_ds additional_args items st h)"

definition store_parse ::
  "(string \<Rightarrow> bool) \<Rightarrow> store_tokenizer \<Rightarrow> nat \<Rightarrow> store
     \<Rightarrow> (nat pyerr + store_pstate) \<times> store" where
  "store_parse module_loader parse_kv task_ds h =
     (case new_dict [] h of
        (args0, h1) \<Rightarrow>
          (case new_dict [] h1 of
             (dflt, h2) \<Rightarrow>
               (let additional_args = dict_get (deref h2 task_ds) ''args'' (RRef dflt) in
                case store_parse_action parse_kv task_ds additional_args
                       (RNone, args0, RNone) h2 of
                  (Inl e, h3) \<Rightarrow> (Inl e, h3)
                | (Inr st1, h3) \<Rightarrow>
                    (case store_parse_local_action parse_kv task_ds additional_args st1 h3 of
                       (Inl e, h4) \<Rightarrow> (Inl e, h4)
                     | (Inr st2, h4) \<Rightarrow>
                         (case store_parse_modules module_loader parse_kv task_ds additional_args
                                 (deref h4 task_ds) st2 h4 of
                            (Inl e, h5) \<Rightarrow> (Inl e, h5)
                          | (Inr (action, args, delegate_to), h5) \<Rightarrow>
                              (if action = RNone
                               then (Inl (AnsibleParserError ''no action detected in task'' task_ds),
                                     h5)
                               else (case store_handle_shell_weirdness action args h5 of
                                       ((action', args'), h6) \<Rightarrow>
                                         (Inr (action', args', delegate_to), h6))))))))"

section \<open>Correspondence between the two models\<close>

text \<open>
  A value over the store represents a value of the first model when it is the same scalar,
  or a reference to an object of the store whose items, in their order, have the same keys
  and values that represent the values of the dictionary.
\<close>

inductive rep :: "store \<Rightarrow> refval \<Rightarrow> pyval \<Rightarrow> bool" for h :: store where
  rep_None: "rep h RNone PNone"
| rep_Str: "rep h (RStr s) (PStr s)"
| rep_Bool: "rep h (RBool b) (PBool b)"
| rep_Int: "rep h (RInt i) (PInt i)"
| rep_Ref: "a < length h \<Longrightarrow>
            list_all2 (\<lambda>kv kv'. fst kv = fst kv' \<and> rep h (snd kv) (snd kv')) (h ! a) d \<Longrightarrow>
            rep h (RRef a) (PDict d)"

definition rep_items :: "store \<Rightarrow> obj \<Rightarrow> pydict \<Rightarrow> bool" where
  "rep_items h = list_all2 (\<lambda>kv kv'. fst kv = fst kv' \<and> rep h (snd kv) (snd kv'))"

text \<open>
  During a call, \<open>B\<close> is the store at the start of the call and \<open>h\<close> the current store.
  An object created during the call holds items whose values are represented in \<open>B\<close>; a
  variable holds a value represented in \<open>B\<close> or a reference to such an object.
\<close>

definition fresh :: "store \<Rightarrow> store \<Rightarrow> nat \<Rightarrow> pydict \<Rightarrow> bool" where
  "fresh B h a d = (length B \<le> a \<and> a < length h \<and> rep_items B (h ! a) d)"

definition vrel :: "store \<Rightarrow> store \<Rightarrow> refval \<Rightarrow> pyval \<Rightarrow> bool" where
  "vrel B h v pv = (rep B v pv \<or> (\<exists>a d. v = RRef a \<and> pv = PDict d \<and> fresh B h a d))"

text \<open>The exception of the first model carries the record instead of its address.\<close>

definition abs_err :: "pydict \<Rightarrow> nat pyerr \<Rightarrow> pydict pyerr" where
  "abs_err r e = map_pyerr (\<lambda>t. r) e"

definition state_rel :: "store \<Rightarrow> store \<Rightarrow> store_pstate \<Rightarrow> pstate \<Rightarrow> bool" where
  "state_rel B h st pst =
     (rep B (fst st) (fst pst) \<and> fresh B h (fst (snd st)) (fst (snd pst))
      \<and> rep B (snd (snd st)) (snd (snd pst)))"

inductive_cases rep_NoneE [elim!]: "rep h RNone pv"
inductive_cases rep_StrE [elim!]: "rep h (RStr s) pv"
inductive_cases rep_BoolE [elim!]: "rep h (RBool b) pv"
inductive_cases rep_IntE [elim!]: "rep h (RInt i) pv"
inductive_cases rep_RefE [elim!]: "rep h (RRef a) pv"

section \<open>Fixtures: a tokenizer and a registry\<close>

text \<open>
  Modelled from the spec: the Key-Value Tokenizer (\<^verbatim>\<open>ansible.parsing.splitter.parse_kv\<close>
  is imported by the parser, its code is not among the sources). In raw mode the entire
  text is preserved as the single value \<^verbatim>\<open>_raw_params\<close>; otherwise the
  whitespace-separated \<^verbatim>\<open>key=value\<close> tokens become the entries of the mapping.
  Tokens without \<^verbatim>\<open>=\<close> are skipped and quotes are not interpreted. It is used at
  concrete inputs only; the theorems below hold for every tokenizer.
\<close>

fun split_eq :: "string \<Rightarrow> string \<Rightarrow> (string \<times> string) option" where
  "split_eq k [] = None"
| "split_eq k (c # cs) = (if c = CHR ''='' then Some (k, cs) else split_eq (k @ [c]) cs)"

definition tokenize_with :: "(string \<Rightarrow> 'v) \<Rightarrow> string \<Rightarrow> bool \<Rightarrow> (string \<times> 'v) list" where
  "tokenize_with str text raw_mode =
     (if raw_mode then [(''_raw_params'', str text)]
      else fold (\<lambda>tok acc. case split_eq [] tok of
                              Some (k, v) \<Rightarrow> dict_setitem k (str v) acc
                            | None \<Rightarrow> acc) (py_split text) [])"

definition spec_tokenize :: tokenizer where
  "spec_tokenize = tokenize_with PStr"

definition store_tokenize :: store_tokenizer where
  "store_tokenize = tokenize_with RStr"

text \<open>
  Modelled from the spec: the Known-Operation Registry (\<^verbatim>\<open>ansible.plugins.module_loader\<close>
  is imported, its contents are not among the sources), here a fixed registry of six
  operation names. It is used at concrete inputs only.
\<close>

definition example_loader :: "string \<Rightarrow> bool" where
  "example_loader name =
     (name \<in> set [''command'', ''shell'', ''script'', ''copy'', ''file'', ''ping''])"

section \<open>Dictionary operations as maps\<close>

lemma map_of_dict_setitem: "map_of (dict_setitem k v d) = (map_of d)(k \<mapsto> v)"
  by (induction d) auto





section \<open>Normalizing the parameters\<close>







section \<open>The scan over the items\<close>

lemma parse_modules_no_match:
  "\<forall>item \<in> fst ` set items. \<not> module_loader item \<and> item \<noteq> ''meta'' \<Longrightarrow>
   parse_modules module_loader parse_kv task_ds additional_args items st = Inr st"
  by (induction items) auto

lemma parse_modules_conflict:
  "fst st \<noteq> PNone \<Longrightarrow> \<exists>item \<in> fst ` set items. module_loader item \<or> item = ''meta'' \<Longrightarrow>
   parse_modules module_loader parse_kv task_ds additional_args items st
     = Inl (AnsibleParserError ''conflicting action statements'' task_ds)"
  by (induction items) (auto, force+)

lemma parse_modules_skip:
  "\<forall>k \<in> fst ` set pre. \<not> module_loader k \<and> k \<noteq> ''meta'' \<Longrightarrow>
   parse_modules module_loader parse_kv task_ds additional_args (pre @ items) st
     = parse_modules module_loader parse_kv task_ds additional_args items st"
  by (induction pre) auto

section \<open>A record with a single source of the operation\<close>






section \<open>No action detected\<close>

text \<open>
  C5. A record that has no \<^verbatim>\<open>action\<close> key, no \<^verbatim>\<open>local_action\<close> key and no key that
  is in the registry or equal to \<^verbatim>\<open>meta\<close> makes \<^verbatim>\<open>parse\<close> fail with the
  AnsibleParserError "no action detected in task", carrying the record.
\<close>

theorem parse_no_action_detected:
  assumes "\<not> dict_contains task_ds ''action''"
    and "\<not> dict_contains task_ds ''local_action''"
    and "\<forall>item \<in> fst ` set task_ds. \<not> module_loader item \<and> item \<noteq> ''meta''"
  shows "parse module_loader parse_kv task_ds
           = Inl (AnsibleParserError ''no action detected in task'' task_ds)"
  using assms
  by (simp add: parse_def parse_detect_def parse_action_def parse_local_action_def
      parse_modules_no_match)

theorem parse_no_action_detected_witness:
  "\<not> dict_contains [(''name'', PStr ''say hi''), (''args'', PDict [(''x'', PInt 1)])] ''action''
   \<and> \<not> dict_contains [(''name'', PStr ''say hi''), (''args'', PDict [(''x'', PInt 1)])]
         ''local_action''
   \<and> \<not> example_loader ''name'' \<and> \<not> example_loader ''args''
   \<and> parse example_loader spec_tokenize
         [(''name'', PStr ''say hi''), (''args'', PDict [(''x'', PInt 1)])]
       = Inl (AnsibleParserError ''no action detected in task''
                [(''name'', PStr ''say hi''), (''args'', PDict [(''x'', PInt 1)])])"
  using parse_no_action_detected
          [of "[(''name'', PStr ''say hi''), (''args'', PDict [(''x'', PInt 1)])]"
              example_loader spec_tokenize]
  by (simp add: dict_contains_def example_loader_def)

section \<open>Shell and command\<close>

text \<open>
  C6. When the steps before the final check have determined the operation \<^verbatim>\<open>shell\<close>,
  \<^verbatim>\<open>parse\<close> returns \<^verbatim>\<open>command\<close> and parameters in which \<^verbatim>\<open>_uses_shell\<close> is
  True, the other entries being unchanged; when they have determined \<^verbatim>\<open>command\<close>, the
  parameters are returned as they are; and every operation other than \<^verbatim>\<open>shell\<close> is
  returned unaltered, with unaltered parameters.
\<close>

theorem parse_shell_rewriting:
  assumes "parse_detect module_loader parse_kv task_ds = Inr (action, args, delegate_to)"
    and "action \<noteq> PNone"
  shows "\<exists>action' args'.
           parse module_loader parse_kv task_ds = Inr (action', args', delegate_to)
           \<and> (action = PStr ''shell'' \<longrightarrow>
                  action' = PStr ''command''
                  \<and> map_of args' = (map_of args)(''_uses_shell'' \<mapsto> PBool True))
           \<and> (action = PStr ''command'' \<longrightarrow> args' = args)
           \<and> (action \<noteq> PStr ''shell'' \<longrightarrow> action' = action \<and> args' = args)"
  using assms
  by (simp add: parse_def handle_shell_weirdness_def map_of_dict_setitem)

theorem parse_shell_rewriting_witness:
  "\<exists>args'. parse example_loader spec_tokenize [(''shell'', PStr ''echo hi'')]
             = Inr (PStr ''command'', args', PNone)
           \<and> map_of args' = (map_of [(''_raw_params'', PStr ''echo hi'')])
                               (''_uses_shell'' \<mapsto> PBool True)"
proof -
  have d: "parse_detect example_loader spec_tokenize [(''shell'', PStr ''echo hi'')]
           = Inr (PStr ''shell'', [(''_raw_params'', PStr ''echo hi'')], PNone)"
    by code_simp
  have n: "PStr ''shell'' \<noteq> PNone" by simp
  from parse_shell_rewriting [OF d n] show ?thesis by auto
qed

section \<open>Exceptions other than AnsibleParserError\<close>

text \<open>
  C8. The claim is that \<^verbatim>\<open>parse\<close> fails with AnsibleParserError only. An
  \<^verbatim>\<open>action\<close> or \<^verbatim>\<open>local_action\<close> string without any token makes
  \<^verbatim>\<open>_split_module_string\<close> read \<^verbatim>\<open>tokens[0]\<close> of an empty list (IndexError), and a
  true value under \<^verbatim>\<open>args\<close> that is not a mapping reaches \<^verbatim>\<open>final_args.update\<close>
  (TypeError for an integer, ValueError for a string).
\<close>

theorem parse_raises_builtin_exceptions:
  "parse example_loader spec_tokenize [(''action'', PStr '''')] = Inl IndexError
   \<and> parse example_loader spec_tokenize [(''local_action'', PStr ''  '')] = Inl IndexError
   \<and> parse example_loader spec_tokenize [(''copy'', PDict [(''args'', PInt 5)])] = Inl TypeError
   \<and> parse example_loader spec_tokenize [(''copy'', PDict [(''args'', PStr ''abc'')])]
       = Inl ValueError
   \<and> parse example_loader spec_tokenize [(''copy'', PStr ''src=a''), (''args'', PStr ''abc'')]
       = Inl ValueError"
  by code_simp

section \<open>action together with local_action\<close>

text \<open>
  C2, as stated, fails: a record with both keys whose \<^verbatim>\<open>action\<close> value is a mapping
  without a \<^verbatim>\<open>module\<close> entry leaves the operation undetermined, and \<^verbatim>\<open>parse\<close> goes
  on with \<^verbatim>\<open>local_action\<close> and succeeds.
\<close>

theorem parse_action_and_local_action_counterexample:
  "dict_contains [(''action'', PDict []), (''local_action'', PStr ''copy src=a'')] ''action''
   \<and> dict_contains [(''action'', PDict []), (''local_action'', PStr ''copy src=a'')]
         ''local_action''
   \<and> parse example_loader spec_tokenize
         [(''action'', PDict []), (''local_action'', PStr ''copy src=a'')]
       = Inr (PStr ''copy'', [(''src'', PStr ''a'')], PStr ''localhost'')"
  by code_simp

text \<open>
  C2, amended. For every record with both keys \<^verbatim>\<open>action\<close> and \<^verbatim>\<open>local_action\<close> in
  which the value of \<^verbatim>\<open>action\<close> is normalized without failure to an operation that is
  not None, \<^verbatim>\<open>parse\<close> fails with the AnsibleParserError "action and local_action are
  mutually exclusive".
\<close>

theorem parse_action_and_local_action:
  assumes "dict_contains task_ds ''action''"
    and "dict_contains task_ds ''local_action''"
    and "normalize_parameters task_ds parse_kv (dict_get task_ds ''action'' PNone) PNone
           (dict_get task_ds ''args'' (PDict [])) = Inr (action, args)"
    and "action \<noteq> PNone"
  shows "parse module_loader parse_kv task_ds
           = Inl (AnsibleParserError ''action and local_action are mutually exclusive'' task_ds)"
  using assms
  by (simp add: parse_def parse_detect_def parse_action_def parse_local_action_def)

theorem parse_action_and_local_action_witness:
  "parse example_loader spec_tokenize
     [(''action'', PStr ''copy src=a''), (''local_action'', PStr ''copy src=a'')]
   = Inl (AnsibleParserError ''action and local_action are mutually exclusive''
            [(''action'', PStr ''copy src=a''), (''local_action'', PStr ''copy src=a'')])"
proof -
  let ?r = "[(''action'', PStr ''copy src=a''), (''local_action'', PStr ''copy src=a'')]"
  have a: "dict_contains ?r ''action''" and l: "dict_contains ?r ''local_action''"
    by (simp_all add: dict_contains_def)
  have n: "normalize_parameters ?r spec_tokenize (dict_get ?r ''action'' PNone) PNone
             (dict_get ?r ''args'' (PDict [])) = Inr (PStr ''copy'', [(''src'', PStr ''a'')])"
    by code_simp
  have c: "PStr ''copy'' \<noteq> PNone" by simp
  from parse_action_and_local_action [OF a l n c] show ?thesis .
qed

section \<open>Conflicting action statements\<close>

text \<open>
  C4, as stated, fails: with two registry keys whose values are integers, the first one is
  normalized before the second one is seen, and \<^verbatim>\<open>parse\<close> fails with "unexpected
  parameter type" instead.
\<close>

theorem parse_conflicting_counterexample:
  "example_loader ''copy'' \<and> example_loader ''file''
   \<and> parse example_loader spec_tokenize [(''copy'', PInt 5), (''file'', PInt 5)]
       = Inl (AnsibleParserError
                (''unexpected parameter type in action: '' @ type_repr (PInt 5))
                [(''copy'', PInt 5), (''file'', PInt 5)])
   \<and> parse example_loader spec_tokenize [(''copy'', PInt 5), (''file'', PInt 5)]
       \<noteq> Inl (AnsibleParserError ''conflicting action statements''
                  [(''copy'', PInt 5), (''file'', PInt 5)])"
  by code_simp

text \<open>
  C4, amended. Let the \<^verbatim>\<open>action\<close> and \<^verbatim>\<open>local_action\<close> steps pass without failure, and
  let \<open>item\<close> be the first key in iteration order that is in the registry or equal to
  \<^verbatim>\<open>meta\<close>. If an operation was already determined by \<^verbatim>\<open>action\<close> or
  \<^verbatim>\<open>local_action\<close>, or if the value of \<open>item\<close> is normalized without failure and a
  later key is in the registry or equal to \<^verbatim>\<open>meta\<close> too, then \<^verbatim>\<open>parse\<close> fails with
  the AnsibleParserError "conflicting action statements".
\<close>

theorem parse_conflicting_action_statements:
  assumes "parse_action parse_kv task_ds (dict_get task_ds ''args'' (PDict []))
             (PNone, [], PNone) = Inr st1"
    and "parse_local_action parse_kv task_ds (dict_get task_ds ''args'' (PDict [])) st1 = Inr st2"
    and "task_ds = pre @ (item, val) # post"
    and "\<forall>k \<in> fst ` set pre. \<not> module_loader k \<and> k \<noteq> ''meta''"
    and "module_loader item \<or> item = ''meta''"
    and "fst st2 \<noteq> PNone
         \<or> (\<exists>r. normalize_parameters task_ds parse_kv val (PStr item)
                    (dict_get task_ds ''args'' (PDict [])) = Inr r)
            \<and> (\<exists>k \<in> fst ` set post. module_loader k \<or> k = ''meta'')"
  shows "parse module_loader parse_kv task_ds
           = Inl (AnsibleParserError ''conflicting action statements'' task_ds)"
proof -
  let ?aa = "dict_get task_ds ''args'' (PDict [])"
  have "parse_modules module_loader parse_kv task_ds ?aa task_ds st2
        = Inl (AnsibleParserError ''conflicting action statements'' task_ds)"
  proof (cases "fst st2 \<noteq> PNone")
    case True
    have "\<exists>k \<in> fst ` set task_ds. module_loader k \<or> k = ''meta''"
      using assms(3,5) by force
    with True show ?thesis by (rule parse_modules_conflict)
  next
    case False
    with assms(6) obtain r where
      r: "normalize_parameters task_ds parse_kv val (PStr item) ?aa = Inr r"
      and post: "\<exists>k \<in> fst ` set post. module_loader k \<or> k = ''meta''"
      by blast
    have fr: "fst r = PStr item"
      using r by (auto simp: normalize_parameters_def Let_def split: sum.splits if_splits prod.splits)
    have "parse_modules module_loader parse_kv task_ds ?aa (pre @ (item, val) # post) st2
          = parse_modules module_loader parse_kv task_ds ?aa ((item, val) # post) st2"
      using assms(4) by (rule parse_modules_skip)
    also have "\<dots> = parse_modules module_loader parse_kv task_ds ?aa post
                        (fst r, snd r, snd (snd st2))"
      using False assms(5) r by (cases r) auto
    also have "\<dots> = Inl (AnsibleParserError ''conflicting action statements'' task_ds)"
      using post fr by (intro parse_modules_conflict) auto
    finally show ?thesis using assms(3) by simp
  qed
  then show ?thesis
    using assms(1,2) by (simp add: parse_def parse_detect_def)
qed

theorem parse_conflicting_action_statements_witness:
  "parse example_loader spec_tokenize [(''copy'', PStr ''src=a''), (''file'', PStr ''path=b'')]
     = Inl (AnsibleParserError ''conflicting action statements''
              [(''copy'', PStr ''src=a''), (''file'', PStr ''path=b'')])
   \<and> parse example_loader spec_tokenize [(''action'', PStr ''copy src=a''), (''meta'', PNone)]
     = Inl (AnsibleParserError ''conflicting action statements''
              [(''action'', PStr ''copy src=a''), (''meta'', PNone)])"
proof -
  let ?r = "[(''copy'', PStr ''src=a''), (''file'', PStr ''path=b'')]"
  have a: "parse_action spec_tokenize ?r (dict_get ?r ''args'' (PDict [])) (PNone, [], PNone)
           = Inr (PNone, [], PNone)"
    by code_simp
  have l: "parse_local_action spec_tokenize ?r (dict_get ?r ''args'' (PDict []))
             (PNone, [], PNone) = Inr (PNone, [], PNone)"
    by code_simp
  have d: "?r = [] @ (''copy'', PStr ''src=a'') # [(''file'', PStr ''path=b'')]" by simp
  have p: "\<forall>k \<in> fst ` set []. \<not> example_loader k \<and> k \<noteq> ''meta''" by simp
  have m: "example_loader ''copy'' \<or> ''copy'' = ''meta''" by (simp add: example_loader_def)
  have n: "normalize_parameters ?r spec_tokenize (PStr ''src=a'') (PStr ''copy'')
             (dict_get ?r ''args'' (PDict [])) = Inr (PStr ''copy'', [(''src'', PStr ''a'')])"
    by code_simp
  have c: "fst (PNone, [], PNone) \<noteq> PNone
           \<or> (\<exists>r. normalize_parameters ?r spec_tokenize (PStr ''src=a'') (PStr ''copy'')
                      (dict_get ?r ''args'' (PDict [])) = Inr r)
              \<and> (\<exists>k \<in> fst ` set [(''file'', PStr ''path=b'')]. example_loader k \<or> k = ''meta'')"
    using n by (simp add: example_loader_def)
  let ?q = "[(''action'', PStr ''copy src=a''), (''meta'', PNone)]"
  have a': "parse_action spec_tokenize ?q (dict_get ?q ''args'' (PDict [])) (PNone, [], PNone)
            = Inr (PStr ''copy'', [(''src'', PStr ''a'')], PNone)"
    by code_simp
  have l': "parse_local_action spec_tokenize ?q (dict_get ?q ''args'' (PDict []))
              (PStr ''copy'', [(''src'', PStr ''a'')], PNone)
            = Inr (PStr ''copy'', [(''src'', PStr ''a'')], PNone)"
    by code_simp
  have d': "?q = [(''action'', PStr ''copy src=a'')] @ (''meta'', PNone) # []" by simp
  have p': "\<forall>k \<in> fst ` set [(''action'', PStr ''copy src=a'')].
              \<not> example_loader k \<and> k \<noteq> ''meta''"
    by (simp add: example_loader_def)
  have m': "example_loader ''meta'' \<or> ''meta'' = ''meta''" by simp
  have c': "fst (PStr ''copy'', [(''src'', PStr ''a'')], PNone) \<noteq> PNone
            \<or> (\<exists>r. normalize_parameters ?q spec_tokenize PNone (PStr ''meta'')
                       (dict_get ?q ''args'' (PDict [])) = Inr r)
               \<and> (\<exists>k \<in> fst ` set []. example_loader k \<or> k = ''meta'')"
    by simp
  from parse_conflicting_action_statements [OF a l d p m c]
       parse_conflicting_action_statements [OF a' l' d' p' m' c']
  show ?thesis by simp
qed

section \<open>An action or local_action string\<close>




section \<open>Residual module and args keys\<close>




section \<open>Shared defaults\<close>




section \<open>An args key with siblings\<close>



section \<open>The objects of the store are not changed\<close>

lemma take_new_dict:
  "n \<le> length h \<Longrightarrow> new_dict d h = (a, h') \<Longrightarrow>
   a = length h \<and> length h' = Suc (length h) \<and> take n h' = take n h"
  by (auto simp: new_dict_def)

lemma take_store_dict_update:
  "n \<le> target \<Longrightarrow> store_dict_update target v h = (r, h') \<Longrightarrow>
   length h' = length h \<and> take n h' = take n h"
  by (cases v) auto

lemma take_store_normalize_old_style_args:
  "n \<le> length h \<Longrightarrow> store_normalize_old_style_args task_ds parse_kv thing action h = (r, h') \<Longrightarrow>
   length h \<le> length h' \<and> take n h' = take n h"
  by (cases thing) (auto simp: new_dict_def)

lemma take_store_normalize_new_style_args:
  "n \<le> length h \<Longrightarrow> store_normalize_new_style_args task_ds parse_kv thing h = (r, h') \<Longrightarrow>
   length h \<le> length h' \<and> take n h' = take n h"
  by (cases thing) (auto simp: new_dict_def split: option.splits sum.splits)

lemma take_store_normalize_parameters:
  assumes "n \<le> length h"
    and "store_normalize_parameters task_ds parse_kv thing action additional_args h = (r, h')"
  shows "length h < length h' \<and> take n h' = take n h
         \<and> (\<forall>a f. r = Inr (a, f) \<longrightarrow> f = length h)"
proof -
  obtain f h1 where n1: "new_dict [] h = (f, h1)" by (cases "new_dict [] h")
  from take_new_dict [OF assms(1) n1] have f: "f = length h" and l1: "length h1 = Suc (length h)"
    and t1: "take n h1 = take n h" by auto
  obtain u h2 where u: "(if store_truthy h1 additional_args
                 then store_dict_update f additional_args h1 else (Inr (), h1)) = (u, h2)"
    by (cases "if store_truthy h1 additional_args
                 then store_dict_update f additional_args h1 else (Inr (), h1)")
  have l2: "length h2 = length h1" and t2: "take n h2 = take n h1"
    using u take_store_dict_update [of n f additional_args h1 u h2] assms(1) f
    by (auto split: if_splits)
  show ?thesis
  proof (cases u)
    case (Inl e)
    with assms(2) n1 u l1 l2 t1 t2 show ?thesis
      by (auto simp: store_normalize_parameters_def)
  next
    case (Inr uu)
    obtain s h3 where s: "(if action \<noteq> RNone
                      then (case store_normalize_old_style_args task_ds parse_kv thing action h2 of
                              (Inl e, h3) \<Rightarrow> (Inl e, h3)
                            | (Inr args, h3) \<Rightarrow> (Inr (action, args), h3))
                      else store_normalize_new_style_args task_ds parse_kv thing h2) = (s, h3)"
      by (cases "if action \<noteq> RNone
                      then (case store_normalize_old_style_args task_ds parse_kv thing action h2 of
                              (Inl e, h3) \<Rightarrow> (Inl e, h3)
                            | (Inr args, h3) \<Rightarrow> (Inr (action, args), h3))
                      else store_normalize_new_style_args task_ds parse_kv thing h2")
    have n2: "n \<le> length h2" using assms(1) l1 l2 by simp
    have l3: "length h2 \<le> length h3" and t3: "take n h3 = take n h2"
      using s take_store_normalize_old_style_args [OF n2, of task_ds parse_kv thing action]
        take_store_normalize_new_style_args [OF n2, of task_ds parse_kv thing]
      by (auto split: if_splits prod.splits sum.splits)
    show ?thesis
    proof (cases s)
      case (Inl e)
      with assms(2) n1 u Inr s l1 l2 l3 t1 t2 t3 show ?thesis
        by (auto simp: store_normalize_parameters_def)
    next
      case Inr2: (Inr p)
      obtain a' args where p: "p = (a', args)" by (cases p)
      define args' where "args' = (case args of
                                    RRef a \<Rightarrow>
                                      (if deref h3 a \<noteq> [] \<and> dict_contains (deref h3 a) ''args''
                                       then dict_get (deref h3 a) ''args'' RNone else args)
                                  | _ \<Rightarrow> args)"
      have r: "(if store_truthy h3 args'
                        then (case store_dict_update f args' h3 of
                                (Inl e, h4) \<Rightarrow> (Inl e, h4)
                              | (Inr u, h4) \<Rightarrow> (Inr (a', f), h4))
                        else (Inr (a', f), h3)) = (r, h')"
        using assms(2) n1 u Inr s Inr2 p unfolding args'_def
        by (simp add: store_normalize_parameters_def Let_def)
      have nf: "n \<le> f" using assms(1) f by simp
      show ?thesis
      proof (cases "store_truthy h3 args'")
        case True
        obtain u4 h4 where u4: "store_dict_update f args' h3 = (u4, h4)"
          by (cases "store_dict_update f args' h3")
        from take_store_dict_update [OF nf u4]
        have l4: "length h4 = length h3" and t4: "take n h4 = take n h3" by simp_all
        from r True u4 have "h' = h4" and "r = (case u4 of Inl e \<Rightarrow> Inl e | Inr u \<Rightarrow> Inr (a', f))"
          by (simp_all split: sum.splits)
        with l1 l2 l3 l4 t1 t2 t3 t4 f show ?thesis
          by (simp split: sum.splits)
      next
        case False
        with r have "h' = h3" and "r = Inr (a', f)" by simp_all
        with l1 l2 l3 t1 t2 t3 f show ?thesis by simp
      qed
    qed
  qed
qed


lemma take_store_parse_action:
  assumes "n \<le> length h" and "n \<le> fst (snd st)"
    and "store_parse_action parse_kv task_ds additional_args st h = (r, h')"
  shows "length h \<le> length h' \<and> take n h' = take n h
         \<and> (\<forall>st'. r = Inr st' \<longrightarrow> n \<le> fst (snd st'))"
proof (cases "dict_contains (deref h task_ds) ''action''")
  case True
  obtain r0 h0 where n0: "store_normalize_parameters task_ds parse_kv
                (dict_get (deref h task_ds) ''action'' RNone) RNone additional_args h = (r0, h0)"
    by (cases "store_normalize_parameters task_ds parse_kv
                (dict_get (deref h task_ds) ''action'' RNone) RNone additional_args h")
  from take_store_normalize_parameters [OF assms(1) n0] assms(1,3) True n0
  show ?thesis
    by (auto simp: store_parse_action_def split: sum.splits)
next
  case False
  with assms show ?thesis by (auto simp: store_parse_action_def)
qed

lemma take_store_parse_local_action:
  assumes "n \<le> length h" and "n \<le> fst (snd st)"
    and "store_parse_local_action parse_kv task_ds additional_args st h = (r, h')"
  shows "length h \<le> length h' \<and> take n h' = take n h
         \<and> (\<forall>st'. r = Inr st' \<longrightarrow> n \<le> fst (snd st'))"
proof (cases "dict_contains (deref h task_ds) ''local_action'' \<and> fst st = RNone")
  case True
  obtain r0 h0 where n0: "store_normalize_parameters task_ds parse_kv
                (dict_get (deref h task_ds) ''local_action'' (RStr [])) RNone additional_args h
                = (r0, h0)"
    by (cases "store_normalize_parameters task_ds parse_kv
                (dict_get (deref h task_ds) ''local_action'' (RStr [])) RNone additional_args h")
  from take_store_normalize_parameters [OF assms(1) n0] assms(1,3) True n0
  show ?thesis
    by (auto simp: store_parse_local_action_def split: sum.splits)
next
  case False
  with assms show ?thesis by (auto simp: store_parse_local_action_def split: if_splits)
qed

lemma take_store_parse_modules:
  "n \<le> length h \<Longrightarrow> n \<le> fst (snd st) \<Longrightarrow>
   store_parse_modules module_loader parse_kv task_ds additional_args items st h = (r, h') \<Longrightarrow>
   length h \<le> length h' \<and> take n h' = take n h
   \<and> (\<forall>st'. r = Inr st' \<longrightarrow> n \<le> fst (snd st'))"
proof (induction items arbitrary: st h)
  case Nil
  then show ?case by auto
next
  case (Cons p items)
  obtain item val where p: "p = (item, val)" by (cases p)
  show ?case
  proof (cases "module_loader item \<or> item = ''meta''")
    case False
    with Cons.prems p Cons.IH [of h st] show ?thesis by simp
  next
    case True
    show ?thesis
    proof (cases "fst st \<noteq> RNone")
      case True
      with Cons.prems p \<open>module_loader item \<or> item = ''meta''\<close> show ?thesis by auto
    next
      case False
      obtain r0 h0 where n0: "store_normalize_parameters task_ds parse_kv val (RStr item)
                                additional_args h = (r0, h0)"
        by (cases "store_normalize_parameters task_ds parse_kv val (RStr item)
                     additional_args h")
      note fr = take_store_normalize_parameters [OF Cons.prems(1) n0]
      show ?thesis
      proof (cases r0)
        case (Inl e)
        with Cons.prems p True False n0 fr show ?thesis by auto
      next
        case (Inr q)
        obtain a f where q: "q = (a, f)" by (cases q)
        from fr Inr q have f: "f = length h" by simp
        have rec: "store_parse_modules module_loader parse_kv task_ds additional_args items
                     (a, f, snd (snd st)) h0 = (r, h')"
          using Cons.prems(3) p True False n0 Inr q by simp
        have "n \<le> length h0" using fr Cons.prems(1) by simp
        moreover have "n \<le> fst (snd (a, f, snd (snd st)))" using f Cons.prems(1) by simp
        ultimately have "length h0 \<le> length h' \<and> take n h' = take n h0
                         \<and> (\<forall>st'. r = Inr st' \<longrightarrow> n \<le> fst (snd st'))"
          using rec by (rule Cons.IH)
        with fr show ?thesis by simp
      qed
    qed
  qed
qed

lemma take_store_handle_shell_weirdness:
  "n \<le> args \<Longrightarrow> store_handle_shell_weirdness action args h = (r, h') \<Longrightarrow>
   length h' = length h \<and> take n h' = take n h"
  by (auto simp: store_handle_shell_weirdness_def split: if_splits)

text \<open>
  C9. \<^verbatim>\<open>parse\<close> never changes an object that exists when it is called: after the call,
  whether it returns or raises, the store begins with the store before the call, so the
  record, its top-level \<^verbatim>\<open>args\<close> mapping and every nested mapping have the contents they
  had. All the stores of \<^verbatim>\<open>parse\<close> go to objects created during the call: the new
  \<open>final_args\<close>, and the copy from which \<^verbatim>\<open>module\<close> is deleted.
\<close>

theorem store_parse_frame:
  "take (length h) (snd (store_parse module_loader parse_kv task_ds h)) = h"
proof -
  let ?n = "length h"
  obtain args0 h1 where a0: "new_dict [] h = (args0, h1)" by (cases "new_dict [] h")
  obtain dflt h2 where d0: "new_dict [] h1 = (dflt, h2)" by (cases "new_dict [] h1")
  from a0 d0 have args0: "args0 = ?n" and l2: "?n \<le> length h2" and t2: "take ?n h2 = h"
    by (auto simp: new_dict_def)
  let ?aa = "dict_get (deref h2 task_ds) ''args'' (RRef dflt)"
  obtain r3 h3 where p3: "store_parse_action parse_kv task_ds ?aa (RNone, args0, RNone) h2
                          = (r3, h3)"
    by (cases "store_parse_action parse_kv task_ds ?aa (RNone, args0, RNone) h2")
  have s0: "?n \<le> fst (snd (RNone, args0, RNone))" using args0 by simp
  note f3 = take_store_parse_action [OF l2 s0 p3]
  show ?thesis
  proof (cases r3)
    case (Inl e)
    with a0 d0 p3 f3 t2 show ?thesis by (simp add: store_parse_def)
  next
    case (Inr st1)
    obtain r4 h4 where p4: "store_parse_local_action parse_kv task_ds ?aa st1 h3 = (r4, h4)"
      by (cases "store_parse_local_action parse_kv task_ds ?aa st1 h3")
    have l3: "?n \<le> length h3" using f3 l2 by simp
    have s1: "?n \<le> fst (snd st1)" using f3 Inr by simp
    note f4 = take_store_parse_local_action [OF l3 s1 p4]
    show ?thesis
    proof (cases r4)
      case (Inl e)
      with a0 d0 p3 \<open>r3 = Inr st1\<close> p4 f3 f4 t2 show ?thesis by (simp add: store_parse_def)
    next
      case Inr2: (Inr st2)
      obtain r5 h5 where p5: "store_parse_modules module_loader parse_kv task_ds ?aa
                                (deref h4 task_ds) st2 h4 = (r5, h5)"
        by (cases "store_parse_modules module_loader parse_kv task_ds ?aa
                     (deref h4 task_ds) st2 h4")
      have l4: "?n \<le> length h4" using f4 l3 by simp
      have s2: "?n \<le> fst (snd st2)" using f4 Inr2 by simp
      note f5 = take_store_parse_modules [OF l4 s2 p5]
      have t5: "take ?n h5 = h" using f3 f4 f5 t2 by simp
      show ?thesis
      proof (cases r5)
        case (Inl e)
        with a0 d0 p3 \<open>r3 = Inr st1\<close> p4 Inr2 p5 t5 show ?thesis by (simp add: store_parse_def)
      next
        case Inr3: (Inr st3)
        obtain action args delegate_to where st3: "st3 = (action, args, delegate_to)"
          by (cases st3)
        have s3: "?n \<le> args" using f5 Inr3 st3 by simp
        obtain r6 h6 where p6: "store_handle_shell_weirdness action args h5 = (r6, h6)"
          by (cases "store_handle_shell_weirdness action args h5")
        from take_store_handle_shell_weirdness [OF s3 p6] t5 have t6: "take ?n h6 = h" by simp
        from a0 d0 p3 \<open>r3 = Inr st1\<close> p4 Inr2 p5 Inr3 st3 p6 t5 t6 show ?thesis
          by (simp add: store_parse_def split: prod.splits)
      qed
    qed
  qed
qed

theorem store_parse_frame_witness:
  "take 4 (snd (store_parse example_loader store_tokenize 0
      [[(''action'', RRef 1), (''args'', RRef 3)],
       [(''module'', RStr ''shell''), (''args'', RRef 2), (''x'', RInt 1)],
       [(''chdir'', RStr ''/tmp'')],
       [(''d'', RStr ''1'')]]))
   = [[(''action'', RRef 1), (''args'', RRef 3)],
      [(''module'', RStr ''shell''), (''args'', RRef 2), (''x'', RInt 1)],
      [(''chdir'', RStr ''/tmp'')],
      [(''d'', RStr ''1'')]]"
  using store_parse_frame [of
      "[[(''action'', RRef 1), (''args'', RRef 3)],
        [(''module'', RStr ''shell''), (''args'', RRef 2), (''x'', RInt 1)],
        [(''chdir'', RStr ''/tmp'')],
        [(''d'', RStr ''1'')]]" example_loader store_tokenize 0]
  by (simp add: eval_nat_numeral)

section \<open>The two models agree\<close>

text \<open>
  For a record of the first model that is represented in the store, and tokenizers that
  return the same items, \<^verbatim>\<open>parse\<close> over the store raises the same exception as
  \<^verbatim>\<open>parse\<close> over values, or returns an operation, a parameter dictionary and a
  delegate_to that represent the values returned there.
\<close>

lemma rep_Ref_iff: "rep h (RRef a) pv \<longleftrightarrow> (\<exists>d. pv = PDict d \<and> a < length h \<and> rep_items h (h ! a) d)"
  by (auto simp: rep_items_def intro: rep.intros)

lemma rep_mono:
  "rep h v pv \<Longrightarrow> take (length h) h' = h \<Longrightarrow> rep h' v pv"
proof (induction rule: rep.induct)
  case (rep_Ref a d)
  have len: "length h \<le> length h'"
    using arg_cong [OF rep_Ref.prems, of length] by simp
  have a: "a < length h" using rep_Ref by simp
  have eq: "h' ! a = h ! a"
    using nth_take [of a "length h" h'] rep_Ref.prems a by simp
  have "list_all2 (\<lambda>kv kv'. fst kv = fst kv' \<and> rep h' (snd kv) (snd kv')) (h ! a) d"
    using rep_Ref by (auto elim!: list_all2_mono)
  with eq len a show ?case by (auto intro: rep.intros)
qed (auto intro: rep.intros)

lemma rep_items_mono: "rep_items h o' d \<Longrightarrow> take (length h) h' = h \<Longrightarrow> rep_items h' o' d"
  unfolding rep_items_def by (auto elim!: list_all2_mono intro: rep_mono)

lemma rep_items_map_of:
  "rep_items h o' d \<Longrightarrow>
   (case (map_of o' k, map_of d k) of
      (None, None) \<Rightarrow> True | (Some v, Some pv) \<Rightarrow> rep h v pv | _ \<Rightarrow> False)"
  unfolding rep_items_def
  by (induction o' d rule: list_all2_induct) (auto split: option.splits)

lemma rep_items_contains: "rep_items h o' d \<Longrightarrow> dict_contains o' k = dict_contains d k"
  using rep_items_map_of [of h o' d k] by (auto simp: dict_contains_def split: option.splits)

lemma rep_items_get:
  "rep_items h o' d \<Longrightarrow> rep h v pv \<Longrightarrow> rep h (dict_get o' k v) (dict_get d k pv)"
  using rep_items_map_of [of h o' d k] by (auto simp: dict_get_def split: option.splits)

lemma rep_items_setitem:
  "rep_items h o' d \<Longrightarrow> rep h v pv \<Longrightarrow> rep_items h (dict_setitem k v o') (dict_setitem k pv d)"
  unfolding rep_items_def
  by (induction o' d rule: list_all2_induct) auto

lemma rep_items_delitem:
  "rep_items h o' d \<Longrightarrow> rep_items h (dict_delitem k o') (dict_delitem k d)"
  unfolding rep_items_def dict_delitem_def
  by (induction o' d rule: list_all2_induct) auto

lemma rep_items_fold:
  "rep_items h e pe \<Longrightarrow> rep_items h o' d \<Longrightarrow>
   rep_items h (fold (\<lambda>kv acc. dict_setitem (fst kv) (snd kv) acc) e o')
               (fold (\<lambda>kv acc. dict_setitem (fst kv) (snd kv) acc) pe d)"
proof (induction e arbitrary: pe o' d)
  case Nil
  then show ?case by (simp add: rep_items_def)
next
  case (Cons x e)
  from Cons.prems(1) obtain y pe' where pe: "pe = y # pe'" and xy: "fst x = fst y"
    "rep h (snd x) (snd y)" and rest: "rep_items h e pe'"
    by (auto simp: rep_items_def list_all2_Cons1)
  from Cons.IH [OF rest rep_items_setitem [OF Cons.prems(2) xy(2), of "fst x"]] pe xy(1)
  show ?case by simp
qed

lemma rep_items_empty_iff: "rep_items h o' d \<Longrightarrow> o' = [] \<longleftrightarrow> d = []"
  by (auto simp: rep_items_def)


lemma extends_length:
  assumes "take (length h) h' = h"
  shows "length h \<le> length h'"
  using arg_cong [OF assms, of length] by simp

lemma extends_nth: "take (length h) h' = h \<Longrightarrow> a < length h \<Longrightarrow> h' ! a = h ! a"
  using nth_take [of a "length h" h'] by simp

lemma extends_trans:
  "take (length h) h' = h \<Longrightarrow> take (length h') h'' = h' \<Longrightarrow> take (length h) h'' = h"
proof -
  assume a: "take (length h) h' = h" and b: "take (length h') h'' = h'"
  have "take (length h) (take (length h') h'') = take (length h) h''"
    using extends_length [OF a] by (simp add: min_def)
  with a b show ?thesis by simp
qed

lemma fresh_extends: "fresh B h a d \<Longrightarrow> take (length h) h' = h \<Longrightarrow> fresh B h' a d"
  using extends_length [of h h'] extends_nth [of h h' a] by (auto simp: fresh_def)

lemma vrel_extends: "vrel B h v pv \<Longrightarrow> take (length h) h' = h \<Longrightarrow> vrel B h' v pv"
  by (auto simp: vrel_def intro: fresh_extends)

lemma vrel_rep: "rep B v pv \<Longrightarrow> vrel B h v pv"
  by (simp add: vrel_def)

lemma vrel_Ref:
  assumes "vrel B h (RRef a) pv" and "take (length B) h = B"
  shows "\<exists>d. pv = PDict d \<and> rep_items B (deref h a) d"
  using assms(1) unfolding vrel_def
proof
  assume "rep B (RRef a) pv"
  then obtain d where "pv = PDict d" "a < length B" "rep_items B (B ! a) d"
    by (auto simp: rep_Ref_iff)
  with extends_length [OF assms(2)] extends_nth [OF assms(2), of a] show ?thesis
    by (auto simp: deref_def)
next
  assume "\<exists>a' d. RRef a = RRef a' \<and> pv = PDict d \<and> fresh B h a' d"
  then show ?thesis by (auto simp: fresh_def deref_def)
qed

lemma vrel_cases:
  assumes "vrel B h v pv" and "take (length B) h = B"
  shows "(v = RNone \<and> pv = PNone) \<or> (\<exists>s. v = RStr s \<and> pv = PStr s)
         \<or> (\<exists>b. v = RBool b \<and> pv = PBool b) \<or> (\<exists>i. v = RInt i \<and> pv = PInt i)
         \<or> (\<exists>a d. v = RRef a \<and> pv = PDict d \<and> rep_items B (deref h a) d)"
proof (cases v)
  case (RRef a)
  with vrel_Ref [OF assms(1) [unfolded RRef] assms(2)] show ?thesis by auto
qed (use assms(1) in \<open>auto simp: vrel_def\<close>)

lemma vrel_truthy:
  assumes "vrel B h v pv" and "take (length B) h = B"
  shows "store_truthy h v = truthy pv"
  using vrel_cases [OF assms] by (auto dest: rep_items_empty_iff)

lemma rep_type_repr: "rep B v pv \<Longrightarrow> store_type_repr v = type_repr pv"
  by (cases v) auto

lemma rep_check_raw: "rep B v pv \<Longrightarrow> store_check_raw v = check_raw pv"
  by (cases v) (auto simp: store_check_raw_def check_raw_def)

lemma store_dict_update_refines:
  assumes "fresh B h f fd" and "vrel B h v pv" and "take (length B) h = B"
    and "store_dict_update f v h = (res, h')"
  shows "length h' = length h \<and> (\<forall>a. a \<noteq> f \<longrightarrow> h' ! a = h ! a)
         \<and> (case res of
               Inl e \<Rightarrow> dict_update fd pv = Inl (abs_err r e)
             | Inr u \<Rightarrow> (\<exists>fd'. dict_update fd pv = Inr fd' \<and> fresh B h' f fd'))"
proof -
  from assms(1) have f: "length B \<le> f" "f < length h" "rep_items B (h ! f) fd"
    by (simp_all add: fresh_def)
  from vrel_cases [OF assms(2,3)] show ?thesis
  proof (elim disjE exE conjE)
    fix a d assume v: "v = RRef a" "pv = PDict d" and d: "rep_items B (deref h a) d"
    from rep_items_fold [OF d f(3)] f(1,2) assms(4) v show ?thesis
      by (auto simp: fresh_def deref_def)
  qed (use assms(1,4) in \<open>auto simp: abs_err_def\<close>)
qed


lemma split_module_string_cases:
  "split_module_string s =
     (case py_split s of [] \<Rightarrow> Inl IndexError | X # rest \<Rightarrow> Inr (X, join_space rest))"
  by (cases "py_split s"; cases "tl (py_split s)") (simp_all add: split_module_string_def)

lemma tokenizer_rep_items:
  "\<forall>s b. rep_items [] (skv s b) (kv s b) \<Longrightarrow> rep_items B (skv s b) (kv s b)"
  by (rule rep_items_mono [of "[]"]) simp_all

lemma fresh_new:
  "take (length B) h = B \<Longrightarrow> rep_items B x d \<Longrightarrow> fresh B (h @ [x]) (length h) d"
  using extends_length [of B h] by (simp add: fresh_def)

lemma store_normalize_old_style_args_refines:
  assumes "rep B thing pthing" and "rep B action paction"
    and "\<forall>s b. rep_items [] (skv s b) (kv s b)"
    and "take (length B) h = B"
    and "store_normalize_old_style_args t skv thing action h = (res, h')"
  shows "case res of
           Inl e \<Rightarrow> normalize_old_style_args r kv pthing paction = Inl (abs_err r e)
         | Inr args \<Rightarrow> (\<exists>pargs. normalize_old_style_args r kv pthing paction = Inr pargs
                                \<and> vrel B h' args pargs)"
proof (cases thing)
  case (RStr s)
  with assms(1) have p: "pthing = PStr s" by auto
  from fresh_new [OF assms(4) tokenizer_rep_items [OF assms(3)]] assms(5) RStr p
    rep_check_raw [OF assms(2)]
  show ?thesis by (auto simp: new_dict_def vrel_def)
next
  case (RRef a)
  with assms(1,5) show ?thesis by (auto simp: vrel_def intro: rep.intros)
qed (use assms(1,5) in
      \<open>auto simp: vrel_def store_unexpected_type_def unexpected_type_def abs_err_def
         intro: rep.intros\<close>)

lemma store_normalize_new_style_args_refines:
  assumes "rep B thing pthing"
    and "\<forall>s b. rep_items [] (skv s b) (kv s b)"
    and "take (length B) h = B"
    and "store_normalize_new_style_args t skv thing h = (res, h')"
  shows "case res of
           Inl e \<Rightarrow> normalize_new_style_args r kv pthing = Inl (abs_err r e)
         | Inr p \<Rightarrow> (\<exists>pa pargs. normalize_new_style_args r kv pthing = Inr (pa, pargs)
                                \<and> rep B (fst p) pa \<and> vrel B h' (snd p) pargs)"
proof (cases thing)
  case (RStr s)
  with assms(1) have p: "pthing = PStr s" by auto
  show ?thesis
  proof (cases "py_split s")
    case Nil
    with assms(4) RStr p show ?thesis
      by (auto simp: split_module_string_cases abs_err_def)
  next
    case (Cons X rest)
    from fresh_new [OF assms(3) tokenizer_rep_items [OF assms(2)]] assms(4) RStr p Cons
    show ?thesis
      by (auto simp: split_module_string_cases new_dict_def vrel_def store_check_raw_def
          check_raw_def intro: rep.intros)
  qed
next
  case (RRef a)
  with assms(1) obtain d where p: "pthing = PDict d" and a: "a < length B"
    and d: "rep_items B (B ! a) d"
    by (auto simp: rep_Ref_iff)
  have la: "a < length h" using a extends_length [OF assms(3)] by simp
  have o: "deref h a = B ! a"
    using extends_nth [OF assms(3) a] la by (simp add: deref_def)
  have lB: "length B \<le> length h" by (rule extends_length [OF assms(3)])
  show ?thesis
  proof (cases "map_of (B ! a) ''module''")
    case None
    with rep_items_map_of [OF d, of "''module''"] have "map_of d ''module'' = None"
      by (auto split: option.splits)
    with None assms(4) RRef p o show ?thesis
      by (auto simp: new_dict_def deref_def vrel_def intro: rep.intros)
  next
    case (Some m)
    with rep_items_map_of [OF d, of "''module''"] obtain pm where
      pm: "map_of d ''module'' = Some pm" "rep B m pm"
      by (auto split: option.splits)
    have "fresh B ((h @ [B ! a, B ! a])[Suc (length h) := dict_delitem ''module'' (B ! a)])
            (Suc (length h)) (dict_delitem ''module'' d)"
      using lB rep_items_delitem [OF d] by (simp add: fresh_def nth_append)
    with Some pm assms(4) RRef p o show ?thesis
      by (auto simp: new_dict_def deref_def vrel_def nth_append)
  qed
qed (use assms(1,4) in
      \<open>auto simp: vrel_def store_unexpected_type_def unexpected_type_def abs_err_def\<close>)


lemma rep_None_iff: "rep B v pv \<Longrightarrow> v = RNone \<longleftrightarrow> pv = PNone"
  by (cases v) auto

lemma unwrap_args_refines:
  assumes "vrel B h args pargs" and "take (length B) h = B"
  shows "vrel B h
           (case args of
              RRef a \<Rightarrow> (if deref h a \<noteq> [] \<and> dict_contains (deref h a) ''args''
                          then dict_get (deref h a) ''args'' RNone else args)
            | _ \<Rightarrow> args)
           (case pargs of
              PDict d \<Rightarrow> (if d \<noteq> [] \<and> dict_contains d ''args''
                           then dict_get d ''args'' PNone else pargs)
            | _ \<Rightarrow> pargs)"
  using vrel_cases [OF assms]
proof (elim disjE exE conjE)
  fix a d assume v: "args = RRef a" "pargs = PDict d" and d: "rep_items B (deref h a) d"
  from rep_items_get [OF d rep_None, of "''args''"] rep_items_contains [OF d, of "''args''"]
    rep_items_empty_iff [OF d] assms(1) v
  show ?thesis by (auto simp: vrel_rep)
qed (use assms(1) in auto)

lemma store_normalize_parameters_refines:
  assumes "rep B thing pthing" and "rep B action paction" and "vrel B h aa paa"
    and "\<forall>s b. rep_items [] (skv s b) (kv s b)"
    and "take (length B) h = B"
    and "store_normalize_parameters t skv thing action aa h = (res, h')"
  shows "case res of
           Inl e \<Rightarrow> normalize_parameters r kv pthing paction paa = Inl (abs_err r e)
         | Inr p \<Rightarrow> (\<exists>pa pf. normalize_parameters r kv pthing paction paa = Inr (pa, pf)
                              \<and> rep B (fst p) pa \<and> fresh B h' (snd p) pf)"
proof -
  let ?f = "length h" and ?h1 = "h @ [[]]"
  have n1: "new_dict [] h = (?f, ?h1)" by (simp add: new_dict_def)
  have e1: "take (length h) ?h1 = h" by simp
  have B1: "take (length B) ?h1 = B" by (rule extends_trans [OF assms(5) e1])
  have f1: "fresh B ?h1 ?f []"
    using fresh_new [OF assms(5), of "[]" "[]"] by (simp add: rep_items_def)
  have aa1: "vrel B ?h1 aa paa" by (rule vrel_extends [OF assms(3) e1])
  have tr1: "store_truthy ?h1 aa = truthy paa" by (rule vrel_truthy [OF aa1 B1])
  obtain u h2 where u: "(if store_truthy ?h1 aa
                 then store_dict_update ?f aa ?h1 else (Inr (), ?h1)) = (u, h2)"
    by (cases "if store_truthy ?h1 aa then store_dict_update ?f aa ?h1 else (Inr (), ?h1)")
  have step1: "length h2 = length ?h1 \<and> take (length B) h2 = B
               \<and> (case u of
                     Inl e \<Rightarrow> (if truthy paa then dict_update [] paa else Inr [])
                                 = Inl (abs_err r e)
                   | Inr x \<Rightarrow> (\<exists>fd. (if truthy paa then dict_update [] paa else Inr []) = Inr fd
                                      \<and> fresh B h2 ?f fd))"
  proof (cases "truthy paa")
    case True
    with u tr1 have su: "store_dict_update ?f aa ?h1 = (u, h2)" by simp
    have "length B \<le> ?f" using extends_length [OF assms(5)] .
    from take_store_dict_update [OF this su] store_dict_update_refines [OF f1 aa1 B1 su, of r]
      True B1
    show ?thesis by simp
  next
    case False
    with u tr1 f1 B1 show ?thesis by auto
  qed
  show ?thesis
  proof (cases u)
    case (Inl e)
    with step1 assms(6) n1 u show ?thesis
      by (auto simp: store_normalize_parameters_def normalize_parameters_def)
  next
    case (Inr x)
    with step1 obtain fd where
      p1: "(if truthy paa then dict_update [] paa else Inr []) = Inr fd"
      and f2: "fresh B h2 ?f fd" and B2: "take (length B) h2 = B"
      by auto
    let ?style = "if action \<noteq> RNone
                      then (case store_normalize_old_style_args t skv thing action h2 of
                              (Inl e, h3) \<Rightarrow> (Inl e, h3)
                            | (Inr args, h3) \<Rightarrow> (Inr (action, args), h3))
                      else store_normalize_new_style_args t skv thing h2"
    let ?pstyle = "if paction \<noteq> PNone
                 then (case normalize_old_style_args r kv pthing paction of
                         Inl e \<Rightarrow> Inl e | Inr args \<Rightarrow> Inr (paction, args))
                 else normalize_new_style_args r kv pthing"
    obtain s h3 where s: "?style = (s, h3)" by (cases ?style)
    have e3: "take (length h2) h3 = h2"
      using s take_store_normalize_old_style_args [of "length h2" h2 t skv thing action]
        take_store_normalize_new_style_args [of "length h2" h2 t skv thing]
      by (auto split: if_splits prod.splits sum.splits)
    have B3: "take (length B) h3 = B" by (rule extends_trans [OF B2 e3])
    have f3: "fresh B h3 ?f fd" by (rule fresh_extends [OF f2 e3])
    have step2: "case s of
                   Inl e \<Rightarrow> ?pstyle = Inl (abs_err r e)
                 | Inr p \<Rightarrow> (\<exists>pa pargs. ?pstyle = Inr (pa, pargs)
                                     \<and> rep B (fst p) pa \<and> vrel B h3 (snd p) pargs)"
    proof (cases "action \<noteq> RNone")
      case True
      then have pn: "paction \<noteq> PNone" using rep_None_iff [OF assms(2)] by simp
      obtain s0 h0 where s0: "store_normalize_old_style_args t skv thing action h2 = (s0, h0)"
        by (cases "store_normalize_old_style_args t skv thing action h2")
      from store_normalize_old_style_args_refines [OF assms(1,2,4) B2 s0, of r]
        s True pn s0 assms(2)
      show ?thesis by (auto split: sum.splits)
    next
      case False
      then have pn: "paction = PNone" using rep_None_iff [OF assms(2)] by simp
      have sn: "store_normalize_new_style_args t skv thing h2 = (s, h3)"
        using s False by simp
      from store_normalize_new_style_args_refines [OF assms(1,4) B2 sn, of r] pn
      show ?thesis by (auto split: sum.splits)
    qed
    show ?thesis
    proof (cases s)
      case (Inl e)
      with step2 p1 assms(6) n1 u Inr s show ?thesis
        by (auto simp: store_normalize_parameters_def normalize_parameters_def)
    next
      case Inr2: (Inr p)
      obtain a' args where p: "p = (a', args)" by (cases p)
      with step2 Inr2 obtain pa pargs where
        p2: "?pstyle = Inr (pa, pargs)" and ra: "rep B a' pa" and va: "vrel B h3 args pargs"
        by auto
      define args' where "args' = (case args of
              RRef a \<Rightarrow> (if deref h3 a \<noteq> [] \<and> dict_contains (deref h3 a) ''args''
                          then dict_get (deref h3 a) ''args'' RNone else args)
            | _ \<Rightarrow> args)"
      define pargs' where "pargs' = (case pargs of
              PDict d \<Rightarrow> (if d \<noteq> [] \<and> dict_contains d ''args''
                           then dict_get d ''args'' PNone else pargs)
            | _ \<Rightarrow> pargs)"
      have va': "vrel B h3 args' pargs'"
        unfolding args'_def pargs'_def by (rule unwrap_args_refines [OF va B3])
      have tr: "store_truthy h3 args' = truthy pargs'" by (rule vrel_truthy [OF va' B3])
      have sres: "(if store_truthy h3 args'
                        then (case store_dict_update ?f args' h3 of
                                (Inl e, h4) \<Rightarrow> (Inl e, h4)
                              | (Inr u, h4) \<Rightarrow> (Inr (a', ?f), h4))
                        else (Inr (a', ?f), h3)) = (res, h')"
        using assms(6) n1 u Inr s Inr2 p unfolding args'_def
        by (simp add: store_normalize_parameters_def Let_def)
      have pres: "normalize_parameters r kv pthing paction paa =
                    (if truthy pargs'
                     then (case dict_update fd pargs' of
                             Inl e \<Rightarrow> Inl e | Inr final_args' \<Rightarrow> Inr (pa, final_args'))
                     else Inr (pa, fd))"
        using p1 p2 unfolding pargs'_def
        by (simp add: normalize_parameters_def Let_def)
      show ?thesis
      proof (cases "truthy pargs'")
        case True
        obtain u4 h4 where u4: "store_dict_update ?f args' h3 = (u4, h4)"
          by (cases "store_dict_update ?f args' h3")
        from store_dict_update_refines [OF f3 va' B3 u4, of r] sres pres True tr u4 ra
        show ?thesis by (auto split: sum.splits)
      next
        case False
        with sres pres tr f3 ra show ?thesis by auto
      qed
    qed
  qed
qed


lemma state_rel_extends:
  "state_rel B h st pst \<Longrightarrow> take (length h) h' = h \<Longrightarrow> state_rel B h' st pst"
  by (auto simp: state_rel_def intro: fresh_extends)

lemma record_items:
  assumes "rep B (RRef t) (PDict r)" and "take (length B) h = B"
  shows "rep_items B (deref h t) r"
  using assms(1) extends_length [OF assms(2)] extends_nth [OF assms(2), of t]
  by (auto simp: rep_Ref_iff deref_def)

lemma store_parse_action_refines:
  assumes "rep B (RRef t) (PDict r)" and "vrel B h aa paa"
    and "\<forall>s b. rep_items [] (skv s b) (kv s b)"
    and "take (length B) h = B" and "state_rel B h st pst"
    and "store_parse_action skv t aa st h = (res, h')"
  shows "take (length h) h' = h
         \<and> (case res of
               Inl e \<Rightarrow> parse_action kv r paa pst = Inl (abs_err r e)
             | Inr st' \<Rightarrow> (\<exists>pst'. parse_action kv r paa pst = Inr pst' \<and> state_rel B h' st' pst'))"
proof -
  note items = record_items [OF assms(1,4)]
  note c = rep_items_contains [OF items, of "''action''"]
  show ?thesis
  proof (cases "dict_contains r ''action''")
    case False
    with c assms(5,6) show ?thesis
      by (auto simp: store_parse_action_def parse_action_def)
  next
    case True
    let ?thing = "dict_get (deref h t) ''action'' RNone"
    have th: "rep B ?thing (dict_get r ''action'' PNone)"
      by (rule rep_items_get [OF items rep_None])
    obtain r0 h0 where n0: "store_normalize_parameters t skv ?thing RNone aa h = (r0, h0)"
      by (cases "store_normalize_parameters t skv ?thing RNone aa h")
    have le: "length h \<le> length h" by simp
    from take_store_normalize_parameters [OF le n0]
      store_normalize_parameters_refines [OF th rep_None assms(2,3,4) n0, of r]
      True c assms(6) n0
    show ?thesis
      by (auto simp: store_parse_action_def parse_action_def state_rel_def
          split: sum.splits intro: rep.intros)
  qed
qed

lemma store_parse_local_action_refines:
  assumes "rep B (RRef t) (PDict r)" and "vrel B h aa paa"
    and "\<forall>s b. rep_items [] (skv s b) (kv s b)"
    and "take (length B) h = B" and "state_rel B h st pst"
    and "store_parse_local_action skv t aa st h = (res, h')"
  shows "take (length h) h' = h
         \<and> (case res of
               Inl e \<Rightarrow> parse_local_action kv r paa pst = Inl (abs_err r e)
             | Inr st' \<Rightarrow> (\<exists>pst'. parse_local_action kv r paa pst = Inr pst'
                                  \<and> state_rel B h' st' pst'))"
proof -
  note items = record_items [OF assms(1,4)]
  note c = rep_items_contains [OF items, of "''local_action''"]
  have a: "fst st \<noteq> RNone \<longleftrightarrow> fst pst \<noteq> PNone"
    using assms(5) rep_None_iff [of B "fst st" "fst pst"] by (simp add: state_rel_def)
  show ?thesis
  proof (cases "dict_contains r ''local_action'' \<and> fst pst = PNone")
    case False
    with c a assms(5,6) show ?thesis
      by (auto simp: store_parse_local_action_def parse_local_action_def abs_err_def
          split: if_splits)
  next
    case True
    let ?thing = "dict_get (deref h t) ''local_action'' (RStr [])"
    have th: "rep B ?thing (dict_get r ''local_action'' (PStr []))"
      by (rule rep_items_get [OF items rep_Str])
    obtain r0 h0 where n0: "store_normalize_parameters t skv ?thing RNone aa h = (r0, h0)"
      by (cases "store_normalize_parameters t skv ?thing RNone aa h")
    have le: "length h \<le> length h" by simp
    from take_store_normalize_parameters [OF le n0]
      store_normalize_parameters_refines [OF th rep_None assms(2,3,4) n0, of r]
      True c a assms(6) n0
    show ?thesis
      by (auto simp: store_parse_local_action_def parse_local_action_def state_rel_def
          split: sum.splits intro: rep.intros)
  qed
qed

lemma store_parse_modules_refines:
  assumes "\<forall>s b. rep_items [] (skv s b) (kv s b)"
  shows "rep_items B items pitems \<Longrightarrow> vrel B h aa paa \<Longrightarrow> take (length B) h = B \<Longrightarrow>
         state_rel B h st pst \<Longrightarrow>
         store_parse_modules ml skv t aa items st h = (res, h') \<Longrightarrow>
         take (length h) h' = h
         \<and> (case res of
               Inl e \<Rightarrow> parse_modules ml kv r paa pitems pst = Inl (abs_err r e)
             | Inr st' \<Rightarrow> (\<exists>pst'. parse_modules ml kv r paa pitems pst = Inr pst'
                                  \<and> state_rel B h' st' pst'))"
proof (induction items arbitrary: pitems h st pst)
  case Nil
  then show ?case by (auto simp: rep_items_def split: sum.splits)
next
  case (Cons x items)
  obtain item val where x: "x = (item, val)" by (cases x)
  from Cons.prems(1) x obtain pval prest where
    pi: "pitems = (item, pval) # prest" and v: "rep B val pval" and rest: "rep_items B items prest"
    by (auto simp: rep_items_def list_all2_Cons1)
  have a: "fst st \<noteq> RNone \<longleftrightarrow> fst pst \<noteq> PNone"
    using Cons.prems(4) rep_None_iff [of B "fst st" "fst pst"] by (simp add: state_rel_def)
  show ?case
  proof (cases "ml item \<or> item = ''meta''")
    case False
    then have run: "store_parse_modules ml skv t aa items st h = (res, h')"
      using Cons.prems(5) x by simp
    from Cons.IH [OF rest Cons.prems(2,3,4) run] False pi show ?thesis
      by (auto split: sum.splits)
  next
    case True
    show ?thesis
    proof (cases "fst pst \<noteq> PNone")
      case True
      with Cons.prems(5) x pi a \<open>ml item \<or> item = ''meta''\<close> show ?thesis
        by (auto simp: abs_err_def)
    next
      case False
      obtain r0 h0 where n0: "store_normalize_parameters t skv val (RStr item) aa h = (r0, h0)"
        by (cases "store_normalize_parameters t skv val (RStr item) aa h")
      have le: "length h \<le> length h" by simp
      from take_store_normalize_parameters [OF le n0] have e0: "take (length h) h0 = h" by simp
      note rf = store_normalize_parameters_refines [OF v rep_Str Cons.prems(2) assms
                  Cons.prems(3) n0, of r]
      show ?thesis
      proof (cases r0)
        case (Inl e)
        with rf e0 Cons.prems(5) x pi a True False n0 show ?thesis
          by (auto split: sum.splits)
      next
        case (Inr q)
        obtain a' f where q: "q = (a', f)" by (cases q)
        with rf Inr obtain pa pf where
          pn: "normalize_parameters r kv pval (PStr item) paa = Inr (pa, pf)"
          and ra: "rep B a' pa" and ff: "fresh B h0 f pf"
          by auto
        have run: "store_parse_modules ml skv t aa items (a', f, snd (snd st)) h0 = (res, h')"
          using Cons.prems(5) x True False a n0 Inr q by simp
        have st': "state_rel B h0 (a', f, snd (snd st)) (pa, pf, snd (snd pst))"
          using ra ff Cons.prems(4) by (simp add: state_rel_def)
        have B0: "take (length B) h0 = B" by (rule extends_trans [OF Cons.prems(3) e0])
        from Cons.IH [OF rest vrel_extends [OF Cons.prems(2) e0] B0 st' run]
          extends_trans [OF e0] pi pn True False
        show ?thesis by (auto split: sum.splits)
      qed
    qed
  qed
qed


lemma store_handle_shell_weirdness_refines:
  assumes "rep B action paction" and "fresh B h args pargs"
    and "store_handle_shell_weirdness action args h = ((action', args'), h')"
  shows "\<exists>pa pd. handle_shell_weirdness paction pargs = (pa, pd)
                 \<and> rep B action' pa \<and> fresh B h' args' pd"
proof -
  have s: "action = RStr ''shell'' \<longleftrightarrow> paction = PStr ''shell''"
    and c: "action = RStr ''command'' \<longleftrightarrow> paction = PStr ''command''"
    using assms(1) by (cases action; auto)+
  have u: "rep_items B (dict_setitem ''_uses_shell'' (RBool True) (h ! args))
             (dict_setitem ''_uses_shell'' (PBool True) pargs)"
    using assms(2) by (auto simp: fresh_def intro: rep_items_setitem rep.intros)
  from assms s c u show ?thesis
    by (auto simp: store_handle_shell_weirdness_def handle_shell_weirdness_def fresh_def
        deref_def intro: rep.intros split: if_splits)
qed

theorem store_parse_refines:
  assumes "rep h (RRef t) (PDict r)"
    and "\<forall>s b. rep_items [] (skv s b) (kv s b)"
  shows "case store_parse ml skv t h of
           (Inl e, h') \<Rightarrow> parse ml kv r = Inl (abs_err r e)
         | (Inr (a, args, dl), h') \<Rightarrow>
             (\<exists>pa pargs pdl. parse ml kv r = Inr (pa, pargs, pdl)
                \<and> rep h' a pa \<and> rep h' (RRef args) (PDict pargs) \<and> rep h' dl pdl)"
proof -
  let ?h2 = "h @ [[], []]"
  let ?args0 = "length h" and ?dflt = "Suc (length h)"
  have n12: "new_dict [] h = (?args0, h @ [[]])" "new_dict [] (h @ [[]]) = (?dflt, ?h2)"
    by (simp_all add: new_dict_def)
  have B2: "take (length h) ?h2 = h" by simp
  note items = record_items [OF assms(1) B2]
  let ?aa = "dict_get (deref ?h2 t) ''args'' (RRef ?dflt)"
  let ?paa = "dict_get r ''args'' (PDict [])"
  have aa: "vrel h ?h2 ?aa ?paa"
    using rep_items_map_of [OF items, of "''args''"]
    by (auto simp: dict_get_def vrel_def fresh_def rep_items_def nth_append
        split: option.splits)
  have st0: "state_rel h ?h2 (RNone, ?args0, RNone) (PNone, [], PNone)"
    by (auto simp: state_rel_def fresh_def rep_items_def nth_append intro: rep.intros)
  obtain r3 h3 where p3: "store_parse_action skv t ?aa (RNone, ?args0, RNone) ?h2 = (r3, h3)"
    by (cases "store_parse_action skv t ?aa (RNone, ?args0, RNone) ?h2")
  note f3 = store_parse_action_refines [OF assms(1) aa assms(2) B2 st0 p3]
  have unfold: "store_parse ml skv t h =
     (case (r3, h3) of
        (Inl e, h3) \<Rightarrow> (Inl e, h3)
      | (Inr st1, h3) \<Rightarrow>
          (case store_parse_local_action skv t ?aa st1 h3 of
             (Inl e, h4) \<Rightarrow> (Inl e, h4)
           | (Inr st2, h4) \<Rightarrow>
               (case store_parse_modules ml skv t ?aa (deref h4 t) st2 h4 of
                  (Inl e, h5) \<Rightarrow> (Inl e, h5)
                | (Inr (action, args, delegate_to), h5) \<Rightarrow>
                    (if action = RNone
                     then (Inl (AnsibleParserError ''no action detected in task'' t), h5)
                     else (case store_handle_shell_weirdness action args h5 of
                             ((action', args'), h6) \<Rightarrow>
                               (Inr (action', args', delegate_to), h6))))))"
    using p3 by (simp add: store_parse_def n12 Let_def)
  show ?thesis
  proof (cases r3)
    case (Inl e)
    with f3 unfold show ?thesis
      by (simp add: parse_def parse_detect_def)
  next
    case (Inr st1)
    with f3 obtain pst1 where
      q3: "parse_action kv r ?paa (PNone, [], PNone) = Inr pst1" and s1: "state_rel h h3 st1 pst1"
      and e3: "take (length ?h2) h3 = ?h2"
      by auto
    have B3: "take (length h) h3 = h" by (rule extends_trans [OF B2 e3])
    obtain r4 h4 where p4: "store_parse_local_action skv t ?aa st1 h3 = (r4, h4)"
      by (cases "store_parse_local_action skv t ?aa st1 h3")
    note f4 = store_parse_local_action_refines
                [OF assms(1) vrel_extends [OF aa e3] assms(2) B3 s1 p4]
    show ?thesis
    proof (cases r4)
      case (Inl e)
      with f4 unfold \<open>r3 = Inr st1\<close> p4 q3 show ?thesis
        by (simp add: parse_def parse_detect_def)
    next
      case Inr2: (Inr st2)
      with f4 obtain pst2 where
        q4: "parse_local_action kv r ?paa pst1 = Inr pst2" and s2: "state_rel h h4 st2 pst2"
        and e4: "take (length h3) h4 = h3"
        by auto
      have B4: "take (length h) h4 = h" by (rule extends_trans [OF B3 e4])
      note items4 = record_items [OF assms(1) B4]
      obtain r5 h5 where p5: "store_parse_modules ml skv t ?aa (deref h4 t) st2 h4 = (r5, h5)"
        by (cases "store_parse_modules ml skv t ?aa (deref h4 t) st2 h4")
      note f5 = store_parse_modules_refines
                  [OF assms(2) items4 vrel_extends [OF vrel_extends [OF aa e3] e4] B4 s2 p5,
                   of r]
      show ?thesis
      proof (cases r5)
        case (Inl e)
        with f5 unfold \<open>r3 = Inr st1\<close> p4 Inr2 p5 q3 q4 show ?thesis
          by (simp add: parse_def parse_detect_def)
      next
        case Inr3: (Inr st3)
        with f5 obtain pst3 where
          q5: "parse_modules ml kv r ?paa r pst2 = Inr pst3" and s3: "state_rel h h5 st3 pst3"
          and e5: "take (length h4) h5 = h4"
          by auto
        have B5: "take (length h) h5 = h" by (rule extends_trans [OF B4 e5])
        obtain action args dl where st3: "st3 = (action, args, dl)" by (cases st3)
        obtain pa pargs pdl where pst3: "pst3 = (pa, pargs, pdl)" by (cases pst3)
        from s3 st3 pst3 have ra: "rep h action pa" and fa: "fresh h h5 args pargs"
          and rd: "rep h dl pdl"
          by (simp_all add: state_rel_def)
        have det: "parse_detect ml kv r = Inr (pa, pargs, pdl)"
          using q3 q4 q5 pst3 by (simp add: parse_detect_def)
        show ?thesis
        proof (cases "action = RNone")
          case True
          with ra have "pa = PNone" by auto
          with True unfold \<open>r3 = Inr st1\<close> p4 Inr2 p5 Inr3 st3 det show ?thesis
            by (simp add: parse_def abs_err_def)
        next
          case False
          with ra have pn: "pa \<noteq> PNone" using rep_None_iff [OF ra] by simp
          obtain a' args' h6 where
            p6: "store_handle_shell_weirdness action args h5 = ((a', args'), h6)"
            by (cases "store_handle_shell_weirdness action args h5") auto
          from store_handle_shell_weirdness_refines [OF ra fa p6] obtain pa' pd where
            q6: "handle_shell_weirdness pa pargs = (pa', pd)" and ra': "rep h a' pa'"
            and fa': "fresh h h6 args' pd"
            by blast
          have res: "store_parse ml skv t h = (Inr (a', args', dl), h6)"
            using False unfold \<open>r3 = Inr st1\<close> p4 Inr2 p5 Inr3 st3 p6 by simp
          have "length h \<le> args" using fa by (simp add: fresh_def)
          from take_store_handle_shell_weirdness [OF this p6] B5
          have B6: "take (length h) h6 = h" by simp
          have "rep h6 (RRef args') (PDict pd)"
            using fa' rep_items_mono [OF _ B6] by (auto simp: fresh_def rep_Ref_iff)
          with res det pn q6 rep_mono [OF ra' B6] rep_mono [OF rd B6] show ?thesis
            by (simp add: parse_def)
        qed
      qed
    qed
  qed
qed

end
